theory Spec2Isabelle
  imports Complex_Main "HOL-Library.Char_ord" "HOL-Library.List_Lexorder"
    "HOL-Library.Product_Lexorder"
begin

section \<open>The tabular dataset\<close>

text \<open>
  The imputation module works on a pandas DataFrame. The model keeps what the two
  imputers read and write: an index length (\<open>len(df)\<close>), and an ordered list of named,
  typed columns whose cells are either a value or missing (\<open>None\<close> stands for NaN/NA).
  A numeric column is a float64 or an integer column; an object column holds arbitrary
  Python scalars, here strings and numbers.

  A float64 is the real number it denotes. The ratios and the margin that the module
  computes itself (lines 27, 43, 47, 51 and 100) are rounded as float64 arithmetic rounds
  them, by \<open>fl\<close> below. The arithmetic inside scikit-learn (median, standardization,
  distances, averages) is written over exact reals: the nearest-neighbour step is the
  algorithm of the library, not its rounding, and no property below relies on a cell
  coming back unchanged from it. The operations of pandas and scikit-learn that
  \<open>imputation.py\<close> calls are written out after the documented behaviour of these
  libraries, each with the exception it raises; the two functions of the module follow the
  source line by line.
\<close>

datatype py_error = KeyError | ValueError | TypeError

datatype pval = S string | N real

datatype column =
    ObjectCol "pval option list"
  | Float64Col "real option list"
  | Int64Col "int option list"

record dataframe =
  index_len :: nat
  data :: "(string \<times> column) list"

definition columns :: "dataframe \<Rightarrow> string list" where
  "columns df = map fst (data df)"

text \<open>\<open>df[col]\<close> for a single label that exists.\<close>

definition get_col :: "dataframe \<Rightarrow> string \<Rightarrow> column option" where
  "get_col df col = map_of (data df) col"

text \<open>\<open>df[col] = c\<close>: an existing column is replaced in place, a new one is appended.\<close>

fun assign :: "string \<Rightarrow> column \<Rightarrow> (string \<times> column) list \<Rightarrow> (string \<times> column) list" where
  "assign col c [] = [(col, c)]"
| "assign col c ((k, v) # rest) = (if k = col then (col, c) # rest else (k, v) # assign col c rest)"

definition set_col :: "dataframe \<Rightarrow> string \<Rightarrow> column \<Rightarrow> dataframe" where
  "set_col df col c = df\<lparr>data := assign col c (data df)\<rparr>"

text \<open>The cells of a column as Python objects, and its length.\<close>

fun objects :: "column \<Rightarrow> pval option list" where
  "objects (ObjectCol xs) = xs"
| "objects (Float64Col xs) = map (map_option N) xs"
| "objects (Int64Col xs) = map (map_option (\<lambda>k. N (of_int k))) xs"

definition col_len :: "column \<Rightarrow> nat" where
  "col_len c = length (objects c)"

text \<open>
  Every column of a DataFrame has one cell per index entry, and labels are unique. The
  records that are no DataFrame in this sense are still arguments of the functions below;
  a property that depends on the shape assumes \<open>wf_df\<close>.
\<close>

definition wf_df :: "dataframe \<Rightarrow> bool" where
  "wf_df df \<longleftrightarrow> distinct (columns df) \<and> list_all (\<lambda>(k, c). col_len c = index_len df) (data df)"

text \<open>\<open>s.isnull().sum()\<close>\<close>

definition isnull_sum :: "column \<Rightarrow> nat" where
  "isnull_sum c = length (filter (\<lambda>x. x = None) (objects c))"

text \<open>
  \<open>s.fillna(v)\<close>. A column without missing cells is returned as it is. Otherwise the
  missing cells take \<open>v\<close>: an object column holds any value, a float64 column is upcast
  to object by a string, and a nullable integer column raises \<open>TypeError\<close> on a value
  that is not a whole number.
\<close>

definition fill_cell :: "'a \<Rightarrow> 'a option \<Rightarrow> 'a option" where
  "fill_cell v x = (case x of None \<Rightarrow> Some v | Some y \<Rightarrow> Some y)"

definition fillna :: "column \<Rightarrow> pval \<Rightarrow> py_error + column" where
  "fillna c v =
     (if None \<notin> set (objects c) then Inr c
      else case c of
          ObjectCol xs \<Rightarrow> Inr (ObjectCol (map (fill_cell v) xs))
        | Float64Col xs \<Rightarrow>
            (case v of
               N r \<Rightarrow> Inr (Float64Col (map (fill_cell r) xs))
             | S s \<Rightarrow> Inr (ObjectCol (map (fill_cell v) (objects c))))
        | Int64Col xs \<Rightarrow>
            (case v of
               N r \<Rightarrow>
                 (if r = of_int \<lfloor>r\<rfloor> then Inr (Int64Col (map (fill_cell \<lfloor>r\<rfloor>) xs))
                  else Inl TypeError)
             | S s \<Rightarrow> Inl TypeError))"

text \<open>
  \<open>s.value_counts(dropna=True)\<close>: the distinct present values with their frequencies,
  most frequent first; values of equal frequency stay in order of first appearance (their
  order only shows in the labels that are printed, not in the counts).
\<close>

definition present :: "column \<Rightarrow> pval list" where
  "present c = List.map_filter id (objects c)"

definition uniques :: "'a list \<Rightarrow> 'a list" where
  "uniques xs = rev (remdups (rev xs))"

definition value_counts :: "column \<Rightarrow> (pval \<times> nat) list" where
  "value_counts c =
     (let ps = present c
      in sort_key (\<lambda>(v, k). - int k) (map (\<lambda>v. (v, count_list ps v)) (uniques ps)))"

text \<open>
  \<open>s.mode(dropna=True)\<close>: the present values of maximal frequency, sorted when they are
  comparable (all strings or all numbers). The order of tied values of mixed type depends
  on the version of pandas; they are left in order of first appearance, and the properties
  below hold for any most frequent value.
\<close>

definition is_S :: "pval \<Rightarrow> bool" where
  "is_S v = (case v of S _ \<Rightarrow> True | N _ \<Rightarrow> False)"

definition str_of :: "pval \<Rightarrow> string" where
  "str_of v = (case v of S s \<Rightarrow> s | N _ \<Rightarrow> [])"

definition num_of :: "pval \<Rightarrow> real" where
  "num_of v = (case v of N r \<Rightarrow> r | S _ \<Rightarrow> 0)"

definition mode :: "column \<Rightarrow> pval list" where
  "mode c =
     (let ps = present c;
          us = uniques ps;
          top = fold max (map (count_list ps) us) 0;
          tied = filter (\<lambda>v. count_list ps v = top) us
      in if list_all is_S tied then sort_key str_of tied
         else if list_all (\<lambda>v. \<not> is_S v) tied then sort_key num_of tied
         else tied)"

section \<open>Float64 arithmetic\<close>

text \<open>
  \<open>rint\<close> rounds to the nearest integer, a half to the even one (NumPy's \<open>round\<close>).
  \<open>fl x\<close> is the float64 nearest to \<open>x\<close>, a tie going to the even significand of 53
  bits; the exponent range of float64 is not modelled (no overflow, no subnormals), which
  the ratios of row counts never leave. A float64 division or subtraction is the exact
  result rounded by \<open>fl\<close>, and a decimal literal such as \<open>0.20\<close> is \<open>fl (20 / 100)\<close>.
\<close>

definition rint :: "real \<Rightarrow> int" where
  "rint x =
     (let f = \<lfloor>x\<rfloor>; d = x - of_int f
      in if d < 1 / 2 then f else if d > 1 / 2 then f + 1 else if even f then f else f + 1)"

definition fl :: "real \<Rightarrow> real" where
  "fl x =
     (if x = 0 then 0
      else let e = \<lfloor>log 2 \<bar>x\<bar>\<rfloor> - 52
           in sgn x * of_int (rint (\<bar>x\<bar> / 2 powr (of_int e))) * 2 powr (of_int e))"

section \<open>Diagnostic output\<close>

text \<open>Each \<open>print\<close> of the module is one message; the formatted values are its arguments.\<close>

datatype msg =
    AnalizandoColumna string
  | ColumnaNoExiste string
  | Nulos nat nat real
  | NulosSobreUmbral real string
  | SinValoresNoNulos string
  | Moda pval real
  | SegundaCategoria "pval option" real
  | VentajaModa real
  | NoExisteSeOmite string
  | NoHayColumnasValidas
  | AnalizandoNumerica string

section \<open>The categorical imputer\<close>

record umbrales =
  umbral_nulos_bajo :: real
  umbral_nulos_alto :: real

record cat_params = umbrales +
  umbral_moda_bajo :: real
  umbral_moda_medio :: real
  umbral_ventaja :: real
  etiqueta_unknown :: string

definition cat_defaults :: cat_params where
  "cat_defaults = \<lparr>umbral_nulos_bajo = fl (5 / 100), umbral_nulos_alto = fl (20 / 100),
     umbral_moda_bajo = fl (50 / 100), umbral_moda_medio = fl (60 / 100),
     umbral_ventaja = fl (20 / 100), etiqueta_unknown = ''Unknown''\<rparr>"

text \<open>
  \<open>nulos / total if total > 0 else 0\<close> (the row count is written \<open>ntotal\<close>): a
  float64 division of two integers.
\<close>

definition porcentaje_nulos :: "nat \<Rightarrow> column \<Rightarrow> real" where
  "porcentaje_nulos ntotal c =
     (if ntotal > 0 then fl (real (isnull_sum c) / real ntotal) else 0)"

text \<open>
  \<open>valores.iloc[0] / total\<close>, \<open>valores.iloc[1] / total\<close> or \<open>0.0\<close>, and their
  float64 difference \<open>pct_primero - pct_segundo\<close>.
\<close>

definition pct_primero :: "nat \<Rightarrow> column \<Rightarrow> real" where
  "pct_primero ntotal c = fl (real (snd (value_counts c ! 0)) / real ntotal)"

definition pct_segundo :: "nat \<Rightarrow> column \<Rightarrow> real" where
  "pct_segundo ntotal c =
     (if length (value_counts c) > 1 then fl (real (snd (value_counts c ! 1)) / real ntotal)
      else 0)"

definition ventaja :: "nat \<Rightarrow> column \<Rightarrow> real" where
  "ventaja ntotal c = fl (pct_primero ntotal c - pct_segundo ntotal c)"

definition umbral_moda :: "cat_params \<Rightarrow> nat \<Rightarrow> column \<Rightarrow> real" where
  "umbral_moda p ntotal c =
     (if porcentaje_nulos ntotal c \<le> umbral_nulos_bajo p then umbral_moda_bajo p
      else umbral_moda_medio p)"

text \<open>\<open>df[col] = df[col].fillna(v)\<close>, with what has been printed so far.\<close>

definition asignar_fillna ::
  "dataframe \<Rightarrow> string \<Rightarrow> column \<Rightarrow> pval \<Rightarrow> msg list \<Rightarrow> py_error + (dataframe \<times> msg list)" where
  "asignar_fillna df col c v out =
     (case fillna c v of Inl e \<Rightarrow> Inl e | Inr c' \<Rightarrow> Inr (set_col df col c', out))"

text \<open>One iteration of the loop over \<open>columnas\<close>: the new frame and what was printed.\<close>

definition imputar_categorica_col ::
  "cat_params \<Rightarrow> nat \<Rightarrow> string \<Rightarrow> dataframe \<Rightarrow> py_error + (dataframe \<times> msg list)" where
  "imputar_categorica_col p ntotal col df =
     (case get_col df col of
        None \<Rightarrow> Inr (df, [AnalizandoColumna col, ColumnaNoExiste col])
      | Some c \<Rightarrow>
          let out = [AnalizandoColumna col, Nulos (isnull_sum c) ntotal (porcentaje_nulos ntotal c)]
          in if porcentaje_nulos ntotal c > umbral_nulos_alto p then
               asignar_fillna df col c (S (etiqueta_unknown p))
                 (out @ [NulosSobreUmbral (umbral_nulos_alto p) (etiqueta_unknown p)])
             else if length (value_counts c) = 0 then
               asignar_fillna df col c (S (etiqueta_unknown p))
                 (out @ [SinValoresNoNulos (etiqueta_unknown p)])
             else
               let out2 = out @
                     [Moda (fst (value_counts c ! 0)) (pct_primero ntotal c),
                      SegundaCategoria
                        (if length (value_counts c) > 1 then Some (fst (value_counts c ! 1)) else None)
                        (pct_segundo ntotal c),
                      VentajaModa (ventaja ntotal c)]
               in if pct_primero ntotal c \<ge> umbral_moda p ntotal c \<and> ventaja ntotal c \<ge> umbral_ventaja p then
                    (case mode c of
                       [] \<Rightarrow> Inl KeyError
                     | moda # _ \<Rightarrow> asignar_fillna df col c moda out2)
                  else asignar_fillna df col c (S (etiqueta_unknown p)) out2)"

fun imputar_categoricas_loop ::
  "cat_params \<Rightarrow> nat \<Rightarrow> string list \<Rightarrow> dataframe \<Rightarrow> py_error + (dataframe \<times> msg list)" where
  "imputar_categoricas_loop p ntotal [] df = Inr (df, [])"
| "imputar_categoricas_loop p ntotal (col # rest) df =
     (case imputar_categorica_col p ntotal col df of
        Inl e \<Rightarrow> Inl e
      | Inr (df1, out1) \<Rightarrow>
          (case imputar_categoricas_loop p ntotal rest df1 of
             Inl e \<Rightarrow> Inl e
           | Inr (df2, out2) \<Rightarrow> Inr (df2, out1 @ out2)))"

definition imputar_categoricas ::
  "cat_params \<Rightarrow> dataframe \<Rightarrow> string list \<Rightarrow> py_error + (dataframe \<times> msg list)" where
  "imputar_categoricas p df columnas = imputar_categoricas_loop p (index_len df) columnas df"


section \<open>The numeric imputer\<close>

record num_params = umbrales +
  n_neighbors :: nat
  crear_indicador_missing :: bool
  usar_knn_en_alto :: bool

definition num_defaults :: num_params where
  "num_defaults = \<lparr>umbral_nulos_bajo = fl (5 / 100), umbral_nulos_alto = fl (20 / 100),
     n_neighbors = 5, crear_indicador_missing = True, usar_knn_en_alto = False\<rparr>"

subsection \<open>Column selection\<close>

text \<open>
  \<open>df[columnas]\<close> with a list of labels: pandas raises \<open>KeyError\<close> as soon as one label
  is not a column of the frame.
\<close>

fun select_columns :: "dataframe \<Rightarrow> string list \<Rightarrow> py_error + (string \<times> column) list" where
  "select_columns df [] = Inr []"
| "select_columns df (c # cs) =
     (case get_col df c of
        None \<Rightarrow> Inl KeyError
      | Some x \<Rightarrow>
          (case select_columns df cs of Inl e \<Rightarrow> Inl e | Inr r \<Rightarrow> Inr ((c, x) # r)))"

text \<open>\<open>.select_dtypes(include=[np.number]).columns.tolist()\<close>\<close>

definition is_number :: "column \<Rightarrow> bool" where
  "is_number c = (case c of ObjectCol _ \<Rightarrow> False | Float64Col _ \<Rightarrow> True | Int64Col _ \<Rightarrow> True)"

definition select_dtypes_number :: "(string \<times> column) list \<Rightarrow> string list" where
  "select_dtypes_number xs = map fst (filter (\<lambda>(k, c). is_number c) xs)"

text \<open>\<open>pd.api.types.is_integer_dtype\<close>\<close>

definition is_integer_dtype :: "column \<Rightarrow> bool" where
  "is_integer_dtype c = (case c of Int64Col _ \<Rightarrow> True | _ \<Rightarrow> False)"

text \<open>
  The float matrix that scikit-learn makes of a column: an object column converts only when
  every present cell is a number.
\<close>

definition to_float :: "column \<Rightarrow> py_error + real option list" where
  "to_float c =
     (case c of
        Float64Col xs \<Rightarrow> Inr xs
      | Int64Col xs \<Rightarrow> Inr (map (map_option of_int) xs)
      | ObjectCol xs \<Rightarrow>
          (if list_all (\<lambda>x. case x of Some (S _) \<Rightarrow> False | _ \<Rightarrow> True) xs
           then Inr (map (map_option num_of) xs) else Inl ValueError))"

subsection \<open>Median imputation\<close>

text \<open>
  \<open>SimpleImputer(strategy="median").fit_transform(df[[col]])\<close> followed by the assignment
  \<open>df[[col]] = ...\<close>. scikit-learn rejects an array without rows, and drops a column
  without any present value, so that the assignment of the result fails on its shape.
\<close>

definition present_reals :: "real option list \<Rightarrow> real list" where
  "present_reals xs = List.map_filter id xs"

definition median :: "real list \<Rightarrow> real" where
  "median xs =
     (let s = sort xs; n = length s
      in if n mod 2 = 1 then s ! (n div 2) else (s ! (n div 2 - 1) + s ! (n div 2)) / 2)"

definition imputer_mediana :: "column \<Rightarrow> py_error + column" where
  "imputer_mediana c =
     (case to_float c of
        Inl e \<Rightarrow> Inl e
      | Inr xs \<Rightarrow>
          if length xs = 0 then Inl ValueError
          else if present_reals xs = [] then Inl ValueError
          else Inr (Float64Col (map (fill_cell (median (present_reals xs))) xs)))"

subsection \<open>Nearest-neighbour imputation\<close>

text \<open>
  \<open>StandardScaler\<close>: per column, the mean and the population standard deviation of the
  present cells; a column of zero variance is divided by 1. Missing cells stay missing.
\<close>

definition nanmean :: "real option list \<Rightarrow> real" where
  "nanmean xs = sum_list (present_reals xs) / real (length (present_reals xs))"

definition nanvar :: "real option list \<Rightarrow> real" where
  "nanvar xs =
     sum_list (map (\<lambda>x. (x - nanmean xs)\<^sup>2) (present_reals xs)) / real (length (present_reals xs))"

definition scale_of :: "real option list \<Rightarrow> real" where
  "scale_of xs = (if nanvar xs = 0 then 1 else sqrt (nanvar xs))"

definition scaler_transform :: "real option list \<Rightarrow> real option list" where
  "scaler_transform xs = map (map_option (\<lambda>x. (x - nanmean xs) / scale_of xs)) xs"

definition scaler_inverse_transform :: "real option list \<Rightarrow> real list \<Rightarrow> real list" where
  "scaler_inverse_transform xs ys = map (\<lambda>y. y * scale_of xs + nanmean xs) ys"

text \<open>
  \<open>KNNImputer(n_neighbors=n)\<close> with its defaults \<open>weights="uniform"\<close> and
  \<open>metric="nan_euclidean"\<close>. The matrix is a list of columns. The distance of two rows
  uses the coordinates present in both, scaled up by the share of such coordinates, and is
  undefined when there is none.
\<close>

definition row :: "real option list list \<Rightarrow> nat \<Rightarrow> real option list" where
  "row M i = map (\<lambda>c. c ! i) M"

fun both_present :: "real option list \<Rightarrow> real option list \<Rightarrow> (real \<times> real) list" where
  "both_present (Some x # r1) (Some y # r2) = (x, y) # both_present r1 r2"
| "both_present (_ # r1) (_ # r2) = both_present r1 r2"
| "both_present _ _ = []"

definition nan_euclidean :: "real option list \<Rightarrow> real option list \<Rightarrow> real option" where
  "nan_euclidean r1 r2 =
     (let ps = both_present r1 r2
      in if ps = [] then None
         else Some (sqrt (real (length r1) / real (length ps) *
                          sum_list (map (\<lambda>(x, y). (x - y)\<^sup>2) ps))))"

text \<open>
  The value for the missing cell of column \<open>j\<close> in row \<open>i\<close>: the donors are the rows where
  column \<open>j\<close> is present; the \<open>min n (number of donors)\<close> nearest are taken (undefined
  distances last), and the value is the plain average of those among them whose distance
  is defined. When no donor has a defined distance the value is the column mean.

  Which of several donors at the same distance the library takes is not specified (it
  partitions the distances with \<open>numpy.argpartition\<close>). Donors at the same distance are
  ordered here by \<open>desempate\<close>, a key that may depend on everything the selection sees and
  about which nothing is known: a run is determined when the distances that matter differ,
  and a property proved of this step holds for every way of breaking ties.
\<close>

definition desempate :: "nat list \<Rightarrow> nat \<Rightarrow> real option list list \<Rightarrow> nat \<Rightarrow> nat \<Rightarrow> nat" where
  "desempate = undefined"

definition donors :: "real option list \<Rightarrow> nat list" where
  "donors xs = filter (\<lambda>k. \<not> Option.is_none (xs ! k)) [0..<length xs]"

definition nearest_among ::
  "nat list \<Rightarrow> nat \<Rightarrow> real option list list \<Rightarrow> nat \<Rightarrow> (real option \<times> nat) list" where
  "nearest_among ks n M i =
     (let ds = map (\<lambda>k. (nan_euclidean (row M i) (row M k), k)) ks;
          definidas = filter (\<lambda>(d, k). \<not> Option.is_none d) ds;
          indefinidas = filter (\<lambda>(d, k). Option.is_none d) ds
      in take (min n (length ds))
           (sort_key (\<lambda>(d, k). (the d, desempate ks n M i k)) definidas @ indefinidas))"

definition nearest :: "nat \<Rightarrow> real option list list \<Rightarrow> nat \<Rightarrow> nat \<Rightarrow> (real option \<times> nat) list" where
  "nearest n M j i = nearest_among (donors (M ! j)) n M i"

definition knn_value :: "nat \<Rightarrow> real option list list \<Rightarrow> nat \<Rightarrow> nat \<Rightarrow> real" where
  "knn_value n M j i =
     (let used = filter (\<lambda>(d, k). \<not> Option.is_none d) (nearest n M j i);
          vals = map (\<lambda>(d, k). the (M ! j ! k)) used
      in if used = [] then nanmean (M ! j)
         else sum_list vals / real (length vals))"

definition knn_transform_col :: "nat \<Rightarrow> real option list list \<Rightarrow> nat \<Rightarrow> real list" where
  "knn_transform_col n M j =
     map (\<lambda>i. case M ! j ! i of Some v \<Rightarrow> v | None \<Rightarrow> knn_value n M j i) [0..<length (M ! j)]"

text \<open>
  The whole step on the numeric context \<open>df[cols_num_contexto]\<close>: scale, impute, invert,
  and rebuild a frame with the context's labels. It fails on a context without rows, on
  \<open>n_neighbors = 0\<close>, and when a context column has no present cell (the imputer drops
  such a column and the shapes no longer agree).
\<close>

fun collect :: "(py_error + 'a) list \<Rightarrow> py_error + 'a list" where
  "collect [] = Inr []"
| "collect (x # xs) =
     (case x of
        Inl e \<Rightarrow> Inl e
      | Inr v \<Rightarrow> (case collect xs of Inl e \<Rightarrow> Inl e | Inr vs \<Rightarrow> Inr (v # vs)))"

definition knn_impute_context ::
  "nat \<Rightarrow> string list \<Rightarrow> dataframe \<Rightarrow> py_error + (string \<times> real list) list" where
  "knn_impute_context n cols_num_contexto df =
     (case select_columns df cols_num_contexto of
        Inl e \<Rightarrow> Inl e
      | Inr sub \<Rightarrow>
          (case collect (map (\<lambda>(k, c). to_float c) sub) of
             Inl e \<Rightarrow> Inl e
           | Inr X \<Rightarrow>
               if index_len df = 0 \<or> n = 0 \<or> list_ex (\<lambda>xs. present_reals xs = []) X
               then Inl ValueError
               else
                 let X_scaled = map scaler_transform X;
                     X_imputed_scaled = map (knn_transform_col n X_scaled) [0..<length X];
                     X_imputed = map (\<lambda>(xs, ys). scaler_inverse_transform xs ys)
                                     (zip X X_imputed_scaled)
                 in Inr (zip cols_num_contexto X_imputed)))"

text \<open>\<open>df[col] = X_imputed[col]\<close>\<close>

definition imputar_knn :: "nat \<Rightarrow> string list \<Rightarrow> string \<Rightarrow> dataframe \<Rightarrow> py_error + dataframe" where
  "imputar_knn n cols_num_contexto col df =
     (case knn_impute_context n cols_num_contexto df of
        Inl e \<Rightarrow> Inl e
      | Inr X_imputed \<Rightarrow>
          (case map_of X_imputed col of
             None \<Rightarrow> Inl KeyError
           | Some ys \<Rightarrow> Inr (set_col df col (Float64Col (map Some ys)))))"

text \<open>\<open>df[[col]] = imputer_mediana.fit_transform(df[[col]])\<close>\<close>

definition imputar_mediana :: "string \<Rightarrow> dataframe \<Rightarrow> py_error + dataframe" where
  "imputar_mediana col df =
     (case get_col df col of
        None \<Rightarrow> Inl KeyError
      | Some c \<Rightarrow>
          (case imputer_mediana c of
             Inl e \<Rightarrow> Inl e
           | Inr c' \<Rightarrow> Inr (set_col df col c')))"

subsection \<open>The loop over the valid columns\<close>

text \<open>\<open>df[col].isnull().astype(int)\<close>, stored under \<open>f"{col}_missing"\<close>.\<close>

definition indicador :: "string \<Rightarrow> string" where
  "indicador col = col @ ''_missing''"

definition isnull_astype_int :: "column \<Rightarrow> column" where
  "isnull_astype_int c = Int64Col (map (\<lambda>x. Some (if x = None then 1 else 0)) (objects c))"

definition imputar_numerica_col ::
  "num_params \<Rightarrow> nat \<Rightarrow> string list \<Rightarrow> string \<Rightarrow> dataframe \<Rightarrow> py_error + dataframe" where
  "imputar_numerica_col p ntotal cols_num_contexto col df =
     (case get_col df col of
        None \<Rightarrow> Inl KeyError
      | Some c \<Rightarrow>
          if porcentaje_nulos ntotal c \<le> umbral_nulos_bajo p then imputar_mediana col df
          else if porcentaje_nulos ntotal c \<le> umbral_nulos_alto p then
            imputar_knn (n_neighbors p) cols_num_contexto col df
          else
            let df1 = (if crear_indicador_missing p
                       then set_col df (indicador col) (isnull_astype_int c) else df)
            in if usar_knn_en_alto p then imputar_knn (n_neighbors p) cols_num_contexto col df1
               else imputar_mediana col df1)"

fun imputar_numericas_loop ::
  "num_params \<Rightarrow> nat \<Rightarrow> string list \<Rightarrow> string list \<Rightarrow> dataframe \<Rightarrow> py_error + (dataframe \<times> msg list)" where
  "imputar_numericas_loop p ntotal ctx [] df = Inr (df, [])"
| "imputar_numericas_loop p ntotal ctx (col # rest) df =
     (case imputar_numerica_col p ntotal ctx col df of
        Inl e \<Rightarrow> Inl e
      | Inr df1 \<Rightarrow>
          (case imputar_numericas_loop p ntotal ctx rest df1 of
             Inl e \<Rightarrow> Inl e
           | Inr (df2, out2) \<Rightarrow> Inr (df2, AnalizandoNumerica col # out2)))"

subsection \<open>Restoring the integer columns\<close>

text \<open>
  \<open>.round()\<close> rounds half to even (\<open>rint\<close>); \<open>.astype("Int64")\<close> keeps missing cells
  missing. Integers are unbounded here: the overflow of a value that does not fit 64 bits
  is not modelled.
\<close>

definition round_astype_Int64 :: "column \<Rightarrow> py_error + column" where
  "round_astype_Int64 c =
     (case c of
        Float64Col xs \<Rightarrow> Inr (Int64Col (map (map_option rint) xs))
      | Int64Col xs \<Rightarrow> Inr (Int64Col xs)
      | ObjectCol xs \<Rightarrow> Inl TypeError)"

fun restaurar_enteros :: "dataframe \<Rightarrow> string list \<Rightarrow> dataframe \<Rightarrow> py_error + dataframe" where
  "restaurar_enteros dtypes_originales [] df = Inr df"
| "restaurar_enteros dtypes_originales (col # rest) df =
     (case get_col dtypes_originales col of
        None \<Rightarrow> restaurar_enteros dtypes_originales rest df
      | Some c0 \<Rightarrow>
          if is_integer_dtype c0 then
            (case get_col df col of
               None \<Rightarrow> Inl KeyError
             | Some c \<Rightarrow>
                 (case round_astype_Int64 c of
                    Inl e \<Rightarrow> Inl e
                  | Inr c' \<Rightarrow> restaurar_enteros dtypes_originales rest (set_col df col c')))
          else restaurar_enteros dtypes_originales rest df)"

subsection \<open>\<open>imputar_numericas\<close>\<close>

definition columnas_validas :: "dataframe \<Rightarrow> (string \<times> column) list \<Rightarrow> string list" where
  "columnas_validas df sub =
     filter (\<lambda>c. c \<in> set (select_dtypes_number (data df))) (select_dtypes_number sub)"

definition imputar_numericas ::
  "num_params \<Rightarrow> dataframe \<Rightarrow> string list \<Rightarrow> py_error + (dataframe \<times> msg list)" where
  "imputar_numericas p df columnas =
     (case select_columns df columnas of
        Inl e \<Rightarrow> Inl e
      | Inr sub \<Rightarrow>
          let columnas_no_encontradas = filter (\<lambda>c. c \<notin> set (columns df)) columnas;
              out0 = map NoExisteSeOmite columnas_no_encontradas;
              cols_num_df = select_dtypes_number (data df)
          in if length (columnas_validas df sub) = 0 then Inr (df, out0 @ [NoHayColumnasValidas])
             else
               (case imputar_numericas_loop p (index_len df) cols_num_df (columnas_validas df sub) df of
                  Inl e \<Rightarrow> Inl e
                | Inr (df1, out1) \<Rightarrow>
                    (case restaurar_enteros df (columnas_validas df sub) df1 of
                       Inl e \<Rightarrow> Inl e
                     | Inr df2 \<Rightarrow> Inr (df2, out0 @ out1))))"

section \<open>Vocabulary of the properties\<close>

text \<open>The frequency of a value among the present cells, and the largest frequency.\<close>

definition freq :: "column \<Rightarrow> pval \<Rightarrow> nat" where
  "freq c v = count_list (present c) v"

definition top_freq :: "column \<Rightarrow> nat" where
  "top_freq c = fold max (map (freq c) (uniques (present c))) 0"

text \<open>
  The frequency of the runner-up: the largest frequency among the present values other
  than \<open>moda\<close>, and 0 when there is no other value.
\<close>

definition segunda_freq :: "column \<Rightarrow> pval \<Rightarrow> nat" where
  "segunda_freq c moda =
     (if set (present c) - {moda} = {} then 0 else Max (freq c ` (set (present c) - {moda})))"

text \<open>
  A column that \<open>fillna\<close> can fill with a label: any column but a nullable integer column
  with a missing cell. The categorical columns of the specification (text) are of this
  kind.
\<close>

definition admite_etiqueta :: "column \<Rightarrow> bool" where
  "admite_etiqueta c = (case c of Int64Col xs \<Rightarrow> None \<notin> set xs | _ \<Rightarrow> True)"

text \<open>
  The value that one iteration of \<open>imputar_categoricas\<close> passes to \<open>fillna\<close>: the first
  mode on the branch of line 62, the label on every other branch.
\<close>

definition relleno :: "cat_params \<Rightarrow> nat \<Rightarrow> column \<Rightarrow> pval" where
  "relleno p ntotal c =
     (if porcentaje_nulos ntotal c \<le> umbral_nulos_alto p \<and> present c \<noteq> [] \<and>
         pct_primero ntotal c \<ge> umbral_moda p ntotal c \<and> ventaja ntotal c \<ge> umbral_ventaja p
      then hd (mode c) else S (etiqueta_unknown p))"

text \<open>
  A column \<open>c'\<close> differs from \<open>c\<close> by fills only: it has the same number of cells, and
  every cell present in \<open>c\<close> holds the same value in \<open>c'\<close>.
\<close>

definition fills_only :: "column \<Rightarrow> column \<Rightarrow> bool" where
  "fills_only c c' \<longleftrightarrow>
     length (objects c') = length (objects c) \<and>
     (\<forall>i < length (objects c). objects c ! i \<noteq> None \<longrightarrow> objects c' ! i = objects c ! i)"

text \<open>
  The eligible names of \<open>imputar_numericas\<close>: present in the dataset and numeric.
\<close>

definition elegible :: "dataframe \<Rightarrow> string \<Rightarrow> bool" where
  "elegible df k = (case get_col df k of Some c \<Rightarrow> is_number c | None \<Rightarrow> False)"

text \<open>
  The test under which one iteration of \<open>imputar_numericas\<close> reaches line 123 and writes
  the indicator column.
\<close>

definition escribe_indicador :: "num_params \<Rightarrow> nat \<Rightarrow> column \<Rightarrow> bool" where
  "escribe_indicador p ntotal c \<longleftrightarrow>
     \<not> porcentaje_nulos ntotal c \<le> umbral_nulos_bajo p \<and>
     \<not> porcentaje_nulos ntotal c \<le> umbral_nulos_alto p \<and> crear_indicador_missing p"









section \<open>Example frames\<close>

definition ej_dept :: column where
  "ej_dept = ObjectCol [Some (S ''A''), Some (S ''A''), None, Some (S ''B''), Some (S ''A'')]"

definition ej_age :: column where
  "ej_age = Int64Col [Some 30, None, None, Some 41, Some 30]"

definition ej_ciudad :: column where
  "ej_ciudad = ObjectCol [Some (S ''X''), None, None, Some (S ''Y''), Some (S ''X'')]"

definition ej_df :: dataframe where
  "ej_df = \<lparr>index_len = 5, data = [(''dept'', ej_dept), (''ciudad'', ej_ciudad), (''age'', ej_age)]\<rparr>"

text \<open>
  Thirty-five rows: 18 of \<open>A\<close>, 11 of \<open>B\<close>, 5 of \<open>C\<close> and one missing. The exact margin
  is 7/35, one fifth; in float64 it is below \<open>0.2\<close>.
\<close>

definition ej_grupo :: column where
  "ej_grupo = ObjectCol (replicate 18 (Some (S ''A'')) @ replicate 11 (Some (S ''B'')) @
                         replicate 5 (Some (S ''C'')) @ [None])"

definition ej_margen :: dataframe where
  "ej_margen = \<lparr>index_len = 35, data = [(''grupo'', ej_grupo)]\<rparr>"

definition ej_vacio :: dataframe where
  "ej_vacio = \<lparr>index_len = 0, data = [(''dept'', ObjectCol []), (''age'', Float64Col [])]\<rparr>"

definition ej_num :: dataframe where
  "ej_num = \<lparr>index_len = 5, data =
     [(''a'', Float64Col [None, Some 0, Some 0, Some 2, Some 2]),
      (''b'', Int64Col [Some 0, Some 2, Some 3, Some 4, Some 6]),
      (''t'', ObjectCol [Some (S ''x''), None, None, None, None])]\<rparr>"

definition ej_vecinos :: dataframe where
  "ej_vecinos = \<lparr>index_len = 5, data =
     [(''a'', Float64Col [Some 0, Some 0, Some 2, Some 2, None]),
      (''b'', Int64Col [Some 0, Some 2, Some 3, Some 4, Some 6])]\<rparr>"

definition ej_int :: dataframe where
  "ej_int = \<lparr>index_len = 3, data = [(''n'', Int64Col [Some 1, None, Some 2])]\<rparr>"

definition ej_ind :: dataframe where
  "ej_ind = \<lparr>index_len = 2, data =
     [(''a'', Float64Col [None, Some 1]), (''a_missing'', Float64Col [None, Some 3])]\<rparr>"

definition ej_choque :: dataframe where
  "ej_choque = \<lparr>index_len = 3, data =
     [(''x'', Float64Col [None, None, Some 1]),
      (''x_missing'', ObjectCol [Some (S ''a''), Some (S ''b''), Some (S ''c'')])]\<rparr>"

text \<open>The default parameters with two neighbours.\<close>

definition knn_params :: num_params where
  "knn_params = num_defaults\<lparr>n_neighbors := 2\<rparr>"

section \<open>Evaluating float64 roundings\<close>

lemma fl_0 [simp]: "fl 0 = 0"
  by (simp add: fl_def)

text \<open>
  When \<open>x\<close> scaled by a power of two lies between \<open>2^52\<close> and \<open>2^53\<close>, its rounding is the
  rounding of that number to an integer, scaled back.
\<close>

lemma fl_eval:
  assumes "0 < x" "2 ^ 52 \<le> x * 2 ^ k" "x * 2 ^ k < 2 ^ 53"
  shows "fl x = of_int (rint (x * 2 ^ k)) / 2 ^ k"
proof -
  have p: "(2::real) powr (52 - real k) = 2 ^ 52 / 2 ^ k"
    by (simp add: powr_diff powr_realpow)
  have q: "(2::real) powr (53 - real k) = 2 ^ 53 / 2 ^ k"
    by (simp add: powr_diff powr_realpow)
  have "\<lfloor>log 2 x\<rfloor> = 52 - int k"
    using assms by (subst floor_log_eq_powr_iff) (simp_all add: p q field_simps)
  moreover have "(2::real) powr (- real k) = 1 / 2 ^ k"
    by (simp add: powr_minus powr_realpow inverse_eq_divide)
  ultimately show ?thesis using assms(1) by (simp add: fl_def Let_def)
qed

lemma fl_val_1: "fl (1 / 20) = 3602879701896397 / 72057594037927936"
  by (subst fl_eval[where k = 57]) (simp_all add: rint_def)

lemma fl_val_2: "fl (1 / 5) = 3602879701896397 / 18014398509481984"
  by (subst fl_eval[where k = 55]) (simp_all add: rint_def)

lemma fl_val_3: "fl (2 / 5) = 3602879701896397 / 9007199254740992"
  by (subst fl_eval[where k = 54]) (simp_all add: rint_def)

lemma fl_val_4: "fl (3 / 5) = 5404319552844595 / 9007199254740992"
  by (subst fl_eval[where k = 53]) (simp_all add: rint_def)

lemma fl_val_5: "fl (1 / 2) = 1 / 2"
  by (subst fl_eval[where k = 53]) (simp_all add: rint_def)

lemma fl_val_6: "fl (1 / 3) = 6004799503160661 / 18014398509481984"
  by (subst fl_eval[where k = 54]) (simp_all add: rint_def)

lemma fl_val_7: "fl (2 / 3) = 6004799503160661 / 9007199254740992"
  by (subst fl_eval[where k = 53]) (simp_all add: rint_def)

lemma fl_val_8: "fl (1 / 35) = 8235153604334621 / 288230376151711744"
  by (subst fl_eval[where k = 58]) (simp_all add: rint_def)

lemma fl_val_9: "fl (18 / 35) = 289517118902389 / 562949953421312"
  by (subst fl_eval[where k = 53]) (simp_all add: rint_def)

lemma fl_val_10: "fl (11 / 35) = 1415417025745013 / 4503599627370496"
  by (subst fl_eval[where k = 54]) (simp_all add: rint_def)

lemma fl_val_11: "fl (7205759403792793 / 18014398509481984) = 7205759403792793 / 18014398509481984"
  by (subst fl_eval[where k = 54]) (simp_all add: rint_def)

lemma fl_val_12: "fl (900719925474099 / 4503599627370496) = 900719925474099 / 4503599627370496"
  by (subst fl_eval[where k = 55]) (simp_all add: rint_def)

lemma fl_val_13: "fl (3602879701896397 / 18014398509481984) = 3602879701896397 / 18014398509481984"
  by (subst fl_eval[where k = 55]) (simp_all add: rint_def)

lemmas fl_vals = fl_val_1 fl_val_2 fl_val_3 fl_val_4 fl_val_5 fl_val_6 fl_val_7 fl_val_8 fl_val_9 fl_val_10 fl_val_11 fl_val_12 fl_val_13

section \<open>Frames: reading and assigning columns\<close>

lemma get_col_set_col: "get_col (set_col df k c) k' = (if k' = k then Some c else get_col df k')"
proof -
  have "map_of (assign k c xs) k' = (if k' = k then Some c else map_of xs k')" for xs
    by (induction xs) auto
  then show ?thesis by (simp add: get_col_def set_col_def)
qed

lemma map_fst_assign:
  "map fst (assign k c xs) = (if k \<in> set (map fst xs) then map fst xs else map fst xs @ [k])"
  by (induction xs) (auto simp: rev_image_eqI)

lemma columns_set_col:
  "columns (set_col df k c) = (if k \<in> set (columns df) then columns df else columns df @ [k])"
  by (simp add: columns_def set_col_def map_fst_assign)

lemma index_len_set_col: "index_len (set_col df k c) = index_len df"
  by (simp add: set_col_def)

lemma assign_same: "map_of xs k = Some c \<Longrightarrow> assign k c xs = xs"
  by (induction xs) (auto split: if_splits)

lemma set_col_same: "get_col df k = Some c \<Longrightarrow> set_col df k c = df"
  by (simp add: get_col_def set_col_def assign_same)

lemma get_col_Some_iff: "(\<exists>c. get_col df k = Some c) \<longleftrightarrow> k \<in> set (columns df)"
  using map_of_eq_None_iff[of "data df" k] by (auto simp: get_col_def columns_def)

lemma fill_cell_Some: "fill_cell v x \<noteq> None"
  by (simp add: fill_cell_def split: option.splits)

lemma map_fill_cell_id: "None \<notin> set xs \<Longrightarrow> map (fill_cell v) xs = xs"
  by (induction xs) (auto simp: fill_cell_def split: option.splits intro: option.exhaust)

lemma fillna_Inr_objects: "fillna c v = Inr c' \<Longrightarrow> objects c' = map (fill_cell v) (objects c)"
proof (cases "None \<in> set (objects c)")
  case False
  assume "fillna c v = Inr c'"
  with False show ?thesis by (simp add: fillna_def map_fill_cell_id)
next
  case True
  assume a: "fillna c v = Inr c'"
  have fc: "map_option f (fill_cell r x) = fill_cell (f r) (map_option f x)" for f :: "'a \<Rightarrow> 'b" and r x
    by (cases x) (simp_all add: fill_cell_def)
  show ?thesis
  proof (cases c)
    case (ObjectCol xs)
    with True a show ?thesis by (auto simp: fillna_def)
  next
    case (Float64Col xs)
    with True a show ?thesis by (cases v) (auto simp: fillna_def fc)
  next
    case (Int64Col xs)
    with True a show ?thesis
      by (cases v) (auto simp: fillna_def fc split: if_splits)
  qed
qed

lemma isnull_sum_0_iff: "isnull_sum c = 0 \<longleftrightarrow> None \<notin> set (objects c)"
  by (simp add: isnull_sum_def filter_empty_conv) (metis not_None_eq)

lemma fillna_Inr_complete: "fillna c v = Inr c' \<Longrightarrow> isnull_sum c' = 0"
  by (simp add: isnull_sum_def fillna_Inr_objects fill_cell_Some)

lemma fillna_complete: "isnull_sum c = 0 \<Longrightarrow> fillna c v = Inr c"
  by (simp add: fillna_def isnull_sum_0_iff)

lemma fillna_admite: "admite_etiqueta c \<Longrightarrow> \<exists>c'. fillna c v = Inr c'"
  by (cases c; cases v) (auto simp: fillna_def admite_etiqueta_def)

lemma complete_admite: "isnull_sum c = 0 \<Longrightarrow> admite_etiqueta c"
  by (cases c) (auto simp: admite_etiqueta_def isnull_sum_0_iff)


lemma fills_only_trans: "fills_only a b \<Longrightarrow> fills_only b c \<Longrightarrow> fills_only a c"
  by (auto simp: fills_only_def)

lemma fillna_Inr_fills_only: "fillna c v = Inr c' \<Longrightarrow> fills_only c c'"
  by (auto simp: fills_only_def fillna_Inr_objects fill_cell_def split: option.splits)

section \<open>Frequencies, ranking and mode\<close>

lemma fold_max_ge: "fold max xs (a::nat) \<ge> a"
proof (induction xs arbitrary: a)
  case Nil then show ?case by simp
next
  case (Cons y ys)
  have "a \<le> max y a" by simp
  also have "\<dots> \<le> fold max ys (max y a)" by (rule Cons.IH)
  finally show ?case by simp
qed

lemma fold_max_upper: "x \<in> set xs \<Longrightarrow> x \<le> fold max xs (a::nat)"
proof (induction xs arbitrary: a)
  case Nil then show ?case by simp
next
  case (Cons y ys)
  show ?case
  proof (cases "x = y")
    case True
    have "max y a \<le> fold max ys (max y a)" by (rule fold_max_ge)
    with True show ?thesis by simp
  next
    case False
    with Cons show ?thesis by simp
  qed
qed

lemma fold_max_attained: "xs \<noteq> [] \<Longrightarrow> fold max xs (0::nat) \<in> set xs"
proof -
  have "fold max xs a = a \<or> fold max xs a \<in> set xs" for a :: nat
  proof (induction xs arbitrary: a)
    case Nil then show ?case by simp
  next
    case (Cons y ys)
    from Cons[of "max y a"] show ?case by (auto simp: max_def split: if_splits)
  qed
  note * = this[of 0]
  assume "xs \<noteq> []"
  then obtain y ys where xs: "xs = y # ys" by (cases xs) auto
  show ?thesis
  proof (cases "fold max xs 0 = 0")
    case True
    have "y \<le> fold max xs 0" by (rule fold_max_upper) (simp add: xs)
    with True have "y = 0" by simp
    with True show ?thesis by (simp add: xs)
  next
    case False
    with * show ?thesis by simp
  qed
qed

lemma set_uniques: "set (uniques xs) = set xs"
  by (simp add: uniques_def)

lemma distinct_uniques: "distinct (uniques xs)"
  by (simp add: uniques_def)

lemma top_freq_upper: "freq c v \<le> top_freq c"
proof (cases "v \<in> set (present c)")
  case True
  then show ?thesis unfolding top_freq_def
    by (intro fold_max_upper) (simp add: set_uniques)
next
  case False
  then show ?thesis by (simp add: freq_def)
qed

lemma set_mode: "set (mode c) = {v \<in> set (present c). freq c v = top_freq c}"
  by (auto simp: mode_def Let_def freq_def top_freq_def set_uniques cong: map_cong)

lemma mode_nonempty: "present c \<noteq> [] \<Longrightarrow> mode c \<noteq> []"
proof -
  assume ne: "present c \<noteq> []"
  then have "uniques (present c) \<noteq> []" using set_uniques[of "present c"] by force
  then have "top_freq c \<in> set (map (freq c) (uniques (present c)))"
    unfolding top_freq_def by (intro fold_max_attained) simp
  then obtain v where "v \<in> set (present c)" "freq c v = top_freq c"
    by (auto simp: set_uniques)
  then have "v \<in> set (mode c)" by (simp add: set_mode)
  then show ?thesis by auto
qed

lemma set_value_counts: "set (value_counts c) = (\<lambda>v. (v, freq c v)) ` set (present c)"
  by (simp add: value_counts_def Let_def freq_def set_uniques)

lemma map_fst_value_counts_distinct: "distinct (map fst (value_counts c))"
proof -
  have "distinct (value_counts c)"
    by (simp add: value_counts_def Let_def distinct_map distinct_uniques inj_on_def)
  moreover have "inj_on fst (set (value_counts c))"
    by (auto simp: set_value_counts inj_on_def)
  ultimately show ?thesis by (simp add: distinct_map)
qed

lemma value_counts_descending: "sorted (map (\<lambda>(v, k). - int k) (value_counts c))"
  by (simp add: value_counts_def Let_def)

lemma value_counts_empty_iff: "value_counts c = [] \<longleftrightarrow> present c = []"
  using set_value_counts[of c] by (metis image_is_empty set_empty)

lemma value_counts_hd: 
  assumes "present c \<noteq> []" shows "snd (value_counts c ! 0) = top_freq c"
proof -
  from assms have ne: "value_counts c \<noteq> []" using value_counts_empty_iff by auto
  then obtain v k rest where vc: "value_counts c = (v, k) # rest" by (cases "value_counts c") auto
  have "(v, k) \<in> set (value_counts c)" by (simp add: vc)
  then have k: "k = freq c v" "v \<in> set (present c)" by (auto simp: set_value_counts)
  from mode_nonempty[OF assms] obtain m where "m \<in> set (mode c)" by (cases "mode c") auto
  then have m: "m \<in> set (present c)" "freq c m = top_freq c" by (auto simp: set_mode)
  then have "(m, top_freq c) \<in> set (value_counts c)" by (auto simp: set_value_counts)
  then have "- int k \<le> - int (top_freq c)"
    using value_counts_descending[of c] by (auto simp: vc)
  moreover have "k \<le> top_freq c" using top_freq_upper[of c v] k by simp
  ultimately show ?thesis by (simp add: vc)
qed

section \<open>The runner-up\<close>

lemma value_counts_nth_le:
  assumes "i \<le> j" "j < length (value_counts c)"
  shows "snd (value_counts c ! j) \<le> snd (value_counts c ! i)"
proof -
  let ?ks = "map (\<lambda>(v, k). - int k) (value_counts c)"
  from value_counts_descending[of c] assms have "?ks ! i \<le> ?ks ! j"
    by (intro sorted_nth_mono) simp_all
  with assms show ?thesis by (simp add: case_prod_beta)
qed

lemma value_counts_nth:
  assumes "i < length (value_counts c)"
  shows "fst (value_counts c ! i) \<in> set (present c) \<and>
         snd (value_counts c ! i) = freq c (fst (value_counts c ! i))"
proof -
  from assms have "value_counts c ! i \<in> set (value_counts c)" by simp
  then show ?thesis by (auto simp: set_value_counts)
qed

lemma value_counts_index:
  assumes "v \<in> set (present c)"
  shows "\<exists>i < length (value_counts c). value_counts c ! i = (v, freq c v)"
proof -
  from assms have "(v, freq c v) \<in> set (value_counts c)" by (simp add: set_value_counts)
  then show ?thesis by (auto simp: in_set_conv_nth)
qed

lemma length_value_counts: "length (value_counts c) = card (set (present c))"
proof -
  have "length (value_counts c) = length (uniques (present c))"
    by (simp add: value_counts_def Let_def)
  also have "\<dots> = card (set (uniques (present c)))"
    using distinct_uniques[of "present c"] by (simp add: distinct_card)
  finally show ?thesis by (simp add: set_uniques)
qed

lemma value_counts_second:
  assumes m: "moda \<in> set (present c)" "freq c moda = top_freq c"
  shows "(if length (value_counts c) > 1 then snd (value_counts c ! 1) else 0) = segunda_freq c moda"
proof (cases "length (value_counts c) > 1")
  case False
  then have "card (set (present c)) \<le> 1" by (simp add: length_value_counts)
  moreover from m(1) have "0 < card (set (present c))"
    by (auto simp: card_gt_0_iff)
  then have "card (set (present c)) \<ge> 1" by simp
  ultimately have "card (set (present c)) = 1" by simp
  then obtain x where "set (present c) = {x}" by (auto simp: card_1_singleton_iff)
  with m(1) have "set (present c) - {moda} = {}" by auto
  with False show ?thesis by (simp add: segunda_freq_def)
next
  case True
  let ?vc = "value_counts c" and ?A = "set (present c) - {moda}"
  have ne: "present c \<noteq> []" using m(1) by auto
  have top0: "snd (?vc ! 0) = top_freq c" by (rule value_counts_hd[OF ne])
  have d: "distinct (map fst ?vc)" by (rule map_fst_value_counts_distinct)
  from True have l1: "1 < length ?vc" .
  then have l0: "0 < length ?vc" by (rule less_trans[OF zero_less_one])
  have f01: "fst (?vc ! 0) \<noteq> fst (?vc ! 1)"
    using d l1 by (metis (no_types, lifting) distinct_conv_nth l0 length_map nth_map zero_neq_one)
  have upper: "freq c v \<le> snd (?vc ! 1)" if "v \<in> ?A" for v
  proof -
    from that obtain t where t: "t < length ?vc" "?vc ! t = (v, freq c v)"
      using value_counts_index[of v c] by auto
    show ?thesis
    proof (cases "t = 0")
      case False
      then have "1 \<le> t" by simp
      from value_counts_nth_le[OF this t(1)] t(2) show ?thesis by simp
    next
      case True
      from m(1) obtain t' where t': "t' < length ?vc" "?vc ! t' = (moda, freq c moda)"
        using value_counts_index[of moda c] by auto
      have "t' \<noteq> 0"
      proof
        assume "t' = 0"
        with t True t' have "v = moda" by simp
        with that show False by simp
      qed
      then have "1 \<le> t'" by simp
      from value_counts_nth_le[OF this t'(1)] t'(2) m(2) have "top_freq c \<le> snd (?vc ! 1)" by simp
      with top_freq_upper[of c v] show ?thesis by simp
    qed
  qed
  have attained: "snd (?vc ! 1) \<in> freq c ` ?A"
  proof (cases "fst (?vc ! 1) = moda")
    case False
    with value_counts_nth[OF l1] show ?thesis by auto
  next
    case True
    with value_counts_nth[OF l1] m(2) have "snd (?vc ! 1) = top_freq c" by simp
    moreover from True f01 have "fst (?vc ! 0) \<noteq> moda" by simp
    with value_counts_nth[OF l0] have "fst (?vc ! 0) \<in> ?A" "freq c (fst (?vc ! 0)) = snd (?vc ! 0)"
      by auto
    ultimately show ?thesis using top0 by (metis image_eqI)
  qed
  then have neA: "?A \<noteq> {}" by auto
  have "Max (freq c ` ?A) = snd (?vc ! 1)"
    using attained upper by (intro Max_eqI) auto
  with True neA show ?thesis by (simp add: segunda_freq_def)
qed

section \<open>One iteration and the loop of the categorical imputer\<close>

lemma cat_col_absent:
  "get_col df col = None \<Longrightarrow>
   imputar_categorica_col p ntotal col df = Inr (df, [AnalizandoColumna col, ColumnaNoExiste col])"
  by (simp add: imputar_categorica_col_def)

text \<open>the message block of one iteration\<close>

lemma cat_col_Inr:
  assumes "imputar_categorica_col p ntotal col df = Inr (df', out)" "get_col df col = Some c"
  shows "\<exists>c' resto. fillna c (relleno p ntotal c) = Inr c' \<and> df' = set_col df col c' \<and>
           out = AnalizandoColumna col # Nulos (isnull_sum c) ntotal (porcentaje_nulos ntotal c) # resto \<and>
           (umbral_nulos_alto p < porcentaje_nulos ntotal c
              \<longrightarrow> resto = [NulosSobreUmbral (umbral_nulos_alto p) (etiqueta_unknown p)]) \<and>
           (\<not> umbral_nulos_alto p < porcentaje_nulos ntotal c
              \<longrightarrow> resto = [SinValoresNoNulos (etiqueta_unknown p)] \<or>
                  (\<exists>v r w s t. resto = [Moda v r, SegundaCategoria w s, VentajaModa t]))"
proof (cases "present c = []")
  case True
  with assms show ?thesis
    by (auto simp: imputar_categorica_col_def relleno_def Let_def value_counts_empty_iff
        asignar_fillna_def split: sum.splits if_splits)
next
  case False
  then obtain m ms where "mode c = m # ms" using mode_nonempty[of c] by (cases "mode c") auto
  with assms False show ?thesis
    by (auto simp: imputar_categorica_col_def relleno_def Let_def value_counts_empty_iff
        asignar_fillna_def split: sum.splits if_splits)
qed

lemma cat_col_admite:
  assumes "get_col df col = Some c" "admite_etiqueta c"
  shows "\<exists>df' out. imputar_categorica_col p ntotal col df = Inr (df', out)"
proof -
  from fillna_admite[OF assms(2)] have f: "\<exists>c'. fillna c v = Inr c'" for v by blast
  then obtain a where a: "fillna c (S (etiqueta_unknown p)) = Inr a" by blast
  show ?thesis
  proof (cases "present c = []")
    case True
    with assms a show ?thesis
      by (auto simp: imputar_categorica_col_def Let_def value_counts_empty_iff asignar_fillna_def)
  next
    case False
    then obtain m ms where mo: "mode c = m # ms" using mode_nonempty[of c] by (cases "mode c") auto
    from f obtain b where b: "fillna c m = Inr b" by blast
    with assms a mo False show ?thesis
      by (auto simp: imputar_categorica_col_def Let_def value_counts_empty_iff asignar_fillna_def)
  qed
qed

lemma cat_col_other:
  assumes "imputar_categorica_col p ntotal col df = Inr (df', out)" "k \<noteq> col"
  shows "get_col df' k = get_col df k"
proof (cases "get_col df col")
  case None
  with assms show ?thesis by (simp add: cat_col_absent)
next
  case (Some c)
  from cat_col_Inr[OF assms(1) this] assms(2) show ?thesis
    by (auto simp: get_col_set_col)
qed


lemma cat_col_complete_kept:
  assumes "imputar_categorica_col p ntotal col df = Inr (df', out)"
    and "get_col df k = Some c" "isnull_sum c = 0"
  shows "get_col df' k = Some c"
proof (cases "k = col")
  case False
  with assms cat_col_other show ?thesis by metis
next
  case True
  with cat_col_Inr[OF assms(1), of c] assms(2,3) show ?thesis
    by (auto simp: get_col_set_col fillna_complete)
qed

lemma cat_loop_Cons:
  assumes "imputar_categoricas_loop p ntotal (col # rest) df = Inr (df', out)"
  obtains df1 out1 out2 where "imputar_categorica_col p ntotal col df = Inr (df1, out1)"
    and "imputar_categoricas_loop p ntotal rest df1 = Inr (df', out2)" and "out = out1 @ out2"
  using assms by (auto split: sum.splits)

lemma cat_loop_total:
  assumes "\<forall>k \<in> set cols. \<forall>c. get_col df k = Some c \<longrightarrow> admite_etiqueta c"
  shows "\<exists>df' out. imputar_categoricas_loop p ntotal cols df = Inr (df', out)"
  using assms
proof (induction cols arbitrary: df)
  case Nil then show ?case by simp
next
  case (Cons col rest)
  have "\<exists>df1 out1. imputar_categorica_col p ntotal col df = Inr (df1, out1)"
  proof (cases "get_col df col")
    case None then show ?thesis by (simp add: cat_col_absent)
  next
    case (Some c)
    with Cons.prems have "admite_etiqueta c" by simp
    from cat_col_admite[OF Some this] show ?thesis .
  qed
  then obtain df1 out1 where s: "imputar_categorica_col p ntotal col df = Inr (df1, out1)" by blast
  have "\<forall>k \<in> set rest. \<forall>c. get_col df1 k = Some c \<longrightarrow> admite_etiqueta c"
  proof (intro ballI allI impI)
    fix k c assume k: "k \<in> set rest" and g: "get_col df1 k = Some c"
    show "admite_etiqueta c"
    proof (cases "k = col")
      case False
      with cat_col_other[OF s, of k] g k Cons.prems show ?thesis by simp
    next
      case True
      show ?thesis
      proof (cases "get_col df col")
        case None
        with s g True show ?thesis by (simp add: cat_col_absent)
      next
        case (Some c0)
        from cat_col_Inr[OF s Some] obtain c' where
          c': "fillna c0 (relleno p ntotal c0) = Inr c'" "df1 = set_col df col c'" by blast
        with g True have "c = c'" by (simp add: get_col_set_col)
        with complete_admite[OF fillna_Inr_complete[OF c'(1)]] show ?thesis by simp
      qed
    qed
  qed
  from Cons.IH[OF this] obtain df2 out2 where "imputar_categoricas_loop p ntotal rest df1 = Inr (df2, out2)"
    by blast
  with s show ?case by simp
qed

lemma cat_loop_complete_kept:
  assumes "imputar_categoricas_loop p ntotal cols df = Inr (df', out)"
    and "get_col df k = Some c" "isnull_sum c = 0"
  shows "get_col df' k = Some c"
  using assms
proof (induction cols arbitrary: df out)
  case Nil then show ?case by simp
next
  case (Cons col rest)
  from Cons.prems(1) obtain df1 out1 out2 where
    s: "imputar_categorica_col p ntotal col df = Inr (df1, out1)"
    and l: "imputar_categoricas_loop p ntotal rest df1 = Inr (df', out2)"
    by (rule cat_loop_Cons)
  from cat_col_complete_kept[OF s Cons.prems(2,3)] have "get_col df1 k = Some c" .
  from Cons.IH[OF l this Cons.prems(3)] show ?case .
qed

lemma cat_loop_other:
  assumes "imputar_categoricas_loop p ntotal cols df = Inr (df', out)" "k \<notin> set cols"
  shows "get_col df' k = get_col df k"
  using assms
proof (induction cols arbitrary: df out)
  case Nil then show ?case by simp
next
  case (Cons col rest)
  from Cons.prems(1) obtain df1 out1 out2 where
    s: "imputar_categorica_col p ntotal col df = Inr (df1, out1)"
    and l: "imputar_categoricas_loop p ntotal rest df1 = Inr (df', out2)"
    by (rule cat_loop_Cons)
  from Cons.prems(2) have "k \<noteq> col" "k \<notin> set rest" by auto
  with cat_col_other[OF s] Cons.IH[OF l] show ?case by simp
qed


text \<open>the column after the loop: filled at its first occurrence, then left alone\<close>

lemma cat_loop_result:
  assumes "imputar_categoricas_loop p ntotal cols df = Inr (df', out)"
    and "col \<in> set cols" "get_col df col = Some c"
  shows "\<exists>c'. fillna c (relleno p ntotal c) = Inr c' \<and> get_col df' col = Some c'"
  using assms
proof (induction cols arbitrary: df out)
  case Nil then show ?case by simp
next
  case (Cons k rest)
  from Cons.prems(1) obtain df1 out1 out2 where
    s: "imputar_categorica_col p ntotal k df = Inr (df1, out1)"
    and l: "imputar_categoricas_loop p ntotal rest df1 = Inr (df', out2)"
    by (rule cat_loop_Cons)
  show ?case
  proof (cases "k = col")
    case True
    with cat_col_Inr[OF s, of c] Cons.prems(3) obtain c' where
      c': "fillna c (relleno p ntotal c) = Inr c'" "get_col df1 col = Some c'"
      by (auto simp: get_col_set_col)
    from cat_loop_complete_kept[OF l c'(2) fillna_Inr_complete[OF c'(1)]] c'(1) show ?thesis by simp
  next
    case False
    with Cons.prems(2) have "col \<in> set rest" by simp
    moreover from cat_col_other[OF s, of col] False Cons.prems(3) have "get_col df1 col = Some c" by simp
    ultimately show ?thesis using Cons.IH[OF l] by simp
  qed
qed

lemma cat_loop_append:
  "imputar_categoricas_loop p ntotal (xs @ ys) df =
     (case imputar_categoricas_loop p ntotal xs df of
        Inl e \<Rightarrow> Inl e
      | Inr (df1, o1) \<Rightarrow>
          (case imputar_categoricas_loop p ntotal ys df1 of
             Inl e \<Rightarrow> Inl e
           | Inr (df2, o2) \<Rightarrow> Inr (df2, o1 @ o2)))"
  by (induction xs arbitrary: df) (auto split: sum.splits prod.splits)

lemma relleno_mode:
  assumes "present c \<noteq> []"
  shows "hd (mode c) \<in> set (present c) \<and> (\<forall>v. freq c v \<le> freq c (hd (mode c))) \<and>
         pct_primero ntotal c = fl (real (freq c (hd (mode c))) / real ntotal) \<and>
         pct_segundo ntotal c = fl (real (segunda_freq c (hd (mode c))) / real ntotal)"
proof -
  from mode_nonempty[OF assms] have "hd (mode c) \<in> set (mode c)" by simp
  then have m: "hd (mode c) \<in> set (present c)" "freq c (hd (mode c)) = top_freq c"
    by (auto simp: set_mode)
  have "pct_segundo ntotal c
        = fl (real (if length (value_counts c) > 1 then snd (value_counts c ! 1) else 0) / real ntotal)"
    by (simp add: pct_segundo_def)
  with value_counts_second[OF m] have "pct_segundo ntotal c
        = fl (real (segunda_freq c (hd (mode c))) / real ntotal)" by simp
  with m top_freq_upper[of c] value_counts_hd[OF assms] show ?thesis
    by (simp add: pct_primero_def)
qed

section \<open>Properties of the categorical imputer\<close>

lemmas ej_cat_defs = ej_df_def ej_dept_def ej_ciudad_def ej_age_def ej_vacio_def cat_defaults_def
  get_col_def columns_def porcentaje_nulos_def isnull_sum_def present_def uniques_def
  value_counts_def pct_primero_def pct_segundo_def ventaja_def umbral_moda_def freq_def wf_df_def
  col_len_def admite_etiqueta_def imputar_categoricas_def imputar_categorica_col_def
  asignar_fillna_def fillna_def fill_cell_def set_col_def mode_def is_S_def str_of_def fl_vals

text \<open>
  C3, as the specification states it, fails on a nullable integer column: more than a fifth
  of \<open>age\<close> is missing, line 32 fills it with the label \<open>'Unknown'\<close>, and \<open>fillna\<close>
  raises \<open>TypeError\<close>; the call does not return.
\<close>

theorem imputar_categoricas_completeness_counterexample:
  "0 < index_len ej_df \<and> ''age'' \<in> set [''age''] \<and> ''age'' \<in> set (columns ej_df) \<and>
   imputar_categoricas cat_defaults ej_df [''age''] = Inl TypeError"
  by (simp add: ej_cat_defs)

text \<open>
  C3. For a dataset with at least one row and a list of names whose existing columns can
  hold a label (none is a nullable integer column with a missing cell): the call of
  \<open>imputar_categoricas\<close> returns, and every listed column that exists has no missing cell
  afterwards and differs from what it was by fills only.
\<close>

theorem imputar_categoricas_completeness:
  assumes "0 < index_len df" and "col \<in> set columnas" and "get_col df col = Some c"
    and "\<forall>k \<in> set columnas. \<forall>x. get_col df k = Some x \<longrightarrow> admite_etiqueta x"
  shows "\<exists>df' out c'. imputar_categoricas p df columnas = Inr (df', out) \<and>
           get_col df' col = Some c' \<and> isnull_sum c' = 0 \<and> fills_only c c'"
proof -
  obtain df' out where r: "imputar_categoricas_loop p (index_len df) columnas df = Inr (df', out)"
    using cat_loop_total[OF assms(4)] by blast
  from cat_loop_result[OF r assms(2,3)] obtain c' where
    c': "fillna c (relleno p (index_len df) c) = Inr c'" "get_col df' col = Some c'" by blast
  from r c'(2) fillna_Inr_complete[OF c'(1)] fillna_Inr_fills_only[OF c'(1)] show ?thesis
    by (auto simp: imputar_categoricas_def)
qed

theorem imputar_categoricas_completeness_witness:
  "0 < index_len ej_df \<and> ''ciudad'' \<in> set [''dept'', ''zz'', ''ciudad''] \<and>
   get_col ej_df ''ciudad'' = Some ej_ciudad \<and> get_col ej_df ''dept'' = Some ej_dept \<and>
   get_col ej_df ''zz'' = None \<and> admite_etiqueta ej_dept \<and> admite_etiqueta ej_ciudad \<and>
   (\<exists>df' out. imputar_categoricas cat_defaults ej_df [''dept'', ''zz'', ''ciudad''] = Inr (df', out) \<and>
      get_col df' ''ciudad'' =
        Some (ObjectCol [Some (S ''X''), Some (S ''Unknown''), Some (S ''Unknown''), Some (S ''Y''),
                         Some (S ''X'')]))"
proof -
  have h: "0 < index_len ej_df" "''ciudad'' \<in> set [''dept'', ''zz'', ''ciudad'']"
    "get_col ej_df ''ciudad'' = Some ej_ciudad"
    and g: "get_col ej_df ''dept'' = Some ej_dept" "get_col ej_df ''zz'' = None"
    and a: "admite_etiqueta ej_dept" "admite_etiqueta ej_ciudad"
    by (simp_all add: ej_cat_defs)
  from h(3) g a
  have t: "\<forall>k \<in> set [''dept'', ''zz'', ''ciudad'']. \<forall>x. get_col ej_df k = Some x \<longrightarrow> admite_etiqueta x"
    by simp
  from imputar_categoricas_completeness[OF h t, of cat_defaults] obtain df' out c' where
    r: "imputar_categoricas cat_defaults ej_df [''dept'', ''zz'', ''ciudad''] = Inr (df', out)"
    and c': "get_col df' ''ciudad'' = Some c'" "isnull_sum c' = 0" "fills_only ej_ciudad c'"
    by blast
  have e: "\<exists>out. imputar_categoricas cat_defaults ej_df [''dept'', ''zz'', ''ciudad''] =
      Inr (\<lparr>index_len = 5, data =
              [(''dept'', ObjectCol [Some (S ''A''), Some (S ''A''), Some (S ''A''), Some (S ''B''),
                                     Some (S ''A'')]),
               (''ciudad'', ObjectCol [Some (S ''X''), Some (S ''Unknown''), Some (S ''Unknown''),
                                       Some (S ''Y''), Some (S ''X'')]),
               (''age'', ej_age)]\<rparr>, out)"
    by (simp add: ej_cat_defs)
  with r have "get_col df' ''ciudad'' =
      Some (ObjectCol [Some (S ''X''), Some (S ''Unknown''), Some (S ''Unknown''), Some (S ''Y''),
                       Some (S ''X'')])"
    by (auto simp: get_col_def)
  with r h g a show ?thesis by blast
qed

text \<open>
  The thirty-five rows of \<open>ej_margen\<close>: the top share 18/35 reaches the threshold 0.5, the
  margin is 7/35 in exact arithmetic, but the float64 difference of the two shares is below
  0.2, and the missing cell is filled with the label.
\<close>

lemma ej_margen_run:
  "imputar_categoricas cat_defaults ej_margen [''grupo''] =
     Inr (\<lparr>index_len = 35, data =
            [(''grupo'', ObjectCol (replicate 18 (Some (S ''A'')) @ replicate 11 (Some (S ''B'')) @
                         replicate 5 (Some (S ''C'')) @ [Some (S ''Unknown'')]))]\<rparr>,
          [AnalizandoColumna ''grupo'', Nulos 1 35 (fl (1 / 35)), Moda (S ''A'') (fl (18 / 35)),
           SegundaCategoria (Some (S ''B'')) (fl (11 / 35)),
           VentajaModa (fl (fl (18 / 35) - fl (11 / 35)))])"
  by (simp add: ej_cat_defs ej_margen_def ej_grupo_def eval_nat_numeral)

text \<open>
  C4. For a column that \<open>imputar_categoricas\<close> processes (in a list whose existing columns
  can hold a label), whose missing ratio is at most \<open>umbral_nulos_alto\<close> and which has a
  present value: the call returns, and with \<open>moda\<close> a most frequent present value, the top
  share the float64 quotient of its frequency by the row count, the second share the
  float64 quotient of the largest frequency of another value (0 when there is none) by the
  row count, and the margin their float64 difference, the missing cells are filled with
  \<open>moda\<close> exactly when the top share reaches the mode threshold and the margin reaches
  \<open>umbral_ventaja\<close>, and with \<open>etiqueta_unknown\<close> in every other case; the mode threshold
  is \<open>umbral_moda_bajo\<close> when the missing ratio is at most \<open>umbral_nulos_bajo\<close> and
  \<open>umbral_moda_medio\<close> otherwise. Present cells keep their value.
\<close>

theorem imputar_categoricas_mode_rule:
  assumes "col \<in> set columnas" and "get_col df col = Some c"
    and "\<forall>k \<in> set columnas. \<forall>x. get_col df k = Some x \<longrightarrow> admite_etiqueta x"
    and "0 < index_len df"
    and "fl (real (isnull_sum c) / real (index_len df)) \<le> umbral_nulos_alto p"
    and "present c \<noteq> []"
  shows "\<exists>df' out c' moda.
           imputar_categoricas p df columnas = Inr (df', out) \<and> get_col df' col = Some c' \<and>
           moda \<in> set (present c) \<and> (\<forall>v. freq c v \<le> freq c moda) \<and>
           porcentaje_nulos (index_len df) c = fl (real (isnull_sum c) / real (index_len df)) \<and>
           pct_primero (index_len df) c = fl (real (freq c moda) / real (index_len df)) \<and>
           pct_segundo (index_len df) c = fl (real (segunda_freq c moda) / real (index_len df)) \<and>
           objects c' = map (fill_cell
             (if fl (real (freq c moda) / real (index_len df))
                   \<ge> (if fl (real (isnull_sum c) / real (index_len df)) \<le> umbral_nulos_bajo p
                       then umbral_moda_bajo p else umbral_moda_medio p) \<and>
                 fl (fl (real (freq c moda) / real (index_len df))
                     - fl (real (segunda_freq c moda) / real (index_len df))) \<ge> umbral_ventaja p
              then moda else S (etiqueta_unknown p))) (objects c)"
proof -
  let ?n = "index_len df"
  obtain df' out where r: "imputar_categoricas_loop p ?n columnas df = Inr (df', out)"
    using cat_loop_total[OF assms(3)] by blast
  from cat_loop_result[OF r assms(1,2)] obtain c' where
    c': "fillna c (relleno p ?n c) = Inr c'" "get_col df' col = Some c'" by blast
  have pn: "porcentaje_nulos ?n c = fl (real (isnull_sum c) / real ?n)"
    using assms(4) by (simp add: porcentaje_nulos_def)
  from relleno_mode[OF assms(6), of ?n] have
    m: "hd (mode c) \<in> set (present c)" "\<forall>v. freq c v \<le> freq c (hd (mode c))"
    and p1: "pct_primero ?n c = fl (real (freq c (hd (mode c))) / real ?n)"
    and p2: "pct_segundo ?n c = fl (real (segunda_freq c (hd (mode c))) / real ?n)"
    by blast+
  have rel: "relleno p ?n c =
      (if fl (real (freq c (hd (mode c))) / real ?n)
            \<ge> (if fl (real (isnull_sum c) / real ?n) \<le> umbral_nulos_bajo p
                then umbral_moda_bajo p else umbral_moda_medio p) \<and>
          fl (fl (real (freq c (hd (mode c))) / real ?n)
              - fl (real (segunda_freq c (hd (mode c))) / real ?n)) \<ge> umbral_ventaja p
       then hd (mode c) else S (etiqueta_unknown p))"
    using assms(5,6) by (simp add: relleno_def ventaja_def umbral_moda_def pn p1 p2)
  from fillna_Inr_objects[OF c'(1)] have o: "objects c' = map (fill_cell (relleno p ?n c)) (objects c)" .
  show ?thesis
    apply (intro exI[of _ df'] exI[of _ out] exI[of _ c'] exI[of _ "hd (mode c)"] conjI)
    using r apply (simp add: imputar_categoricas_def)
    using c'(2) apply simp
    using m(1) apply simp
    using m(2) apply simp
    using pn apply simp
    using p1 apply simp
    using p2 apply simp
    using o unfolding rel by simp
qed

theorem imputar_categoricas_mode_rule_witness:
  "''dept'' \<in> set [''dept''] \<and> get_col ej_df ''dept'' = Some ej_dept \<and> admite_etiqueta ej_dept \<and>
   0 < index_len ej_df \<and>
   fl (real (isnull_sum ej_dept) / real (index_len ej_df)) \<le> umbral_nulos_alto cat_defaults \<and>
   present ej_dept \<noteq> [] \<and>
   (\<exists>df' out c'.
      imputar_categoricas cat_defaults ej_df [''dept''] = Inr (df', out) \<and>
      get_col df' ''dept'' = Some c' \<and>
      objects c' = [Some (S ''A''), Some (S ''A''), Some (S ''A''), Some (S ''B''), Some (S ''A'')])"
proof -
  have h: "''dept'' \<in> set [''dept'']" "get_col ej_df ''dept'' = Some ej_dept"
    and a: "admite_etiqueta ej_dept"
    and h': "0 < index_len ej_df"
    "fl (real (isnull_sum ej_dept) / real (index_len ej_df)) \<le> umbral_nulos_alto cat_defaults"
    "present ej_dept \<noteq> []"
    by (simp_all add: ej_cat_defs)
  from h(2) a
  have t: "\<forall>k \<in> set [''dept'']. \<forall>x. get_col ej_df k = Some x \<longrightarrow> admite_etiqueta x" by simp
  have pr: "set (present ej_dept) = {S ''A'', S ''B''}"
    and fa: "freq ej_dept (S ''A'') = 3" and fb: "freq ej_dept (S ''B'') = 1"
    by (auto simp add: ej_cat_defs)
  from imputar_categoricas_mode_rule[OF h t h'] obtain df' out c' moda where
    r: "imputar_categoricas cat_defaults ej_df [''dept''] = Inr (df', out)" "get_col df' ''dept'' = Some c'"
    and m: "moda \<in> set (present ej_dept)" "\<forall>v. freq ej_dept v \<le> freq ej_dept moda"
    and o: "objects c' = map (fill_cell
             (if fl (real (freq ej_dept moda) / real (index_len ej_df))
                   \<ge> (if fl (real (isnull_sum ej_dept) / real (index_len ej_df)) \<le> umbral_nulos_bajo cat_defaults
                       then umbral_moda_bajo cat_defaults else umbral_moda_medio cat_defaults) \<and>
                 fl (fl (real (freq ej_dept moda) / real (index_len ej_df))
                     - fl (real (segunda_freq ej_dept moda) / real (index_len ej_df)))
                   \<ge> umbral_ventaja cat_defaults
              then moda else S (etiqueta_unknown cat_defaults))) (objects ej_dept)"
    by blast
  have mo: "moda = S ''A''"
  proof (rule ccontr)
    assume n: "moda \<noteq> S ''A''"
    from m(1) have "moda \<in> {S ''A'', S ''B''}" unfolding pr .
    with n have "moda = S ''B''" by simp
    moreover from m(2) have "freq ej_dept (S ''A'') \<le> freq ej_dept moda" by (rule spec)
    ultimately show False unfolding fa using fb by simp
  qed
  have "{S ''A'', S ''B''} - {S ''A''} = {S ''B''}" by auto
  then have sf: "segunda_freq ej_dept (S ''A'') = 1"
    unfolding segunda_freq_def pr using fb by simp
  have "objects c' = [Some (S ''A''), Some (S ''A''), Some (S ''A''), Some (S ''B''), Some (S ''A'')]"
    unfolding o mo sf fa
    by (simp add: ej_df_def ej_dept_def cat_defaults_def isnull_sum_def fill_cell_def fl_vals)
  with r h a h' show ?thesis by blast
qed

text \<open>
  C5. In \<open>imputar_categoricas\<close>, on a list whose existing columns can hold a label, the
  call returns, and at the first occurrence of an existing column in the list the automatic
  fallback branch (the message of line 31 and nothing of the frequency ranking, every
  missing cell filled with \<open>etiqueta_unknown\<close>) is taken exactly when the missing ratio is
  strictly greater than \<open>umbral_nulos_alto\<close>; a column whose ratio is at most the
  threshold, so also one exactly at it, goes on to the frequency ranking (the message of
  line 38 or those of lines 53 to 55).
\<close>

theorem imputar_categoricas_auto_fallback_boundary:
  assumes "\<forall>k \<in> set (pre @ col # post). \<forall>x. get_col df k = Some x \<longrightarrow> admite_etiqueta x"
    and "col \<notin> set pre" and "get_col df col = Some c"
  shows "\<exists>df1 out_pre resto df2 df' out_post c'.
           imputar_categoricas_loop p (index_len df) pre df = Inr (df1, out_pre) \<and>
           imputar_categorica_col p (index_len df) col df1 =
             Inr (df2, AnalizandoColumna col #
                       Nulos (isnull_sum c) (index_len df) (porcentaje_nulos (index_len df) c) # resto) \<and>
           imputar_categoricas_loop p (index_len df) post df2 = Inr (df', out_post) \<and>
           imputar_categoricas p df (pre @ col # post) =
             Inr (df', out_pre @ AnalizandoColumna col #
                       Nulos (isnull_sum c) (index_len df) (porcentaje_nulos (index_len df) c) #
                       resto @ out_post) \<and>
           porcentaje_nulos (index_len df) c =
             (if 0 < index_len df then fl (real (isnull_sum c) / real (index_len df)) else 0) \<and>
           (resto = [NulosSobreUmbral (umbral_nulos_alto p) (etiqueta_unknown p)]
              \<longleftrightarrow> umbral_nulos_alto p < porcentaje_nulos (index_len df) c) \<and>
           (\<not> umbral_nulos_alto p < porcentaje_nulos (index_len df) c
              \<longrightarrow> resto = [SinValoresNoNulos (etiqueta_unknown p)] \<or>
                  (\<exists>v r w s t. resto = [Moda v r, SegundaCategoria w s, VentajaModa t])) \<and>
           get_col df' col = Some c' \<and>
           (umbral_nulos_alto p < porcentaje_nulos (index_len df) c
              \<longrightarrow> objects c' = map (fill_cell (S (etiqueta_unknown p))) (objects c))"
proof -
  let ?n = "index_len df"
  obtain df' out where r: "imputar_categoricas_loop p ?n (pre @ col # post) df = Inr (df', out)"
    using cat_loop_total[OF assms(1)] by blast
  then obtain df1 out_pre o2 where
    l1: "imputar_categoricas_loop p ?n pre df = Inr (df1, out_pre)"
    and l2: "imputar_categoricas_loop p ?n (col # post) df1 = Inr (df', o2)"
    and o: "out = out_pre @ o2"
    by (auto simp: cat_loop_append split: sum.splits prod.splits)
  from l2 obtain df2 bloque out_post where
    s: "imputar_categorica_col p ?n col df1 = Inr (df2, bloque)"
    and l3: "imputar_categoricas_loop p ?n post df2 = Inr (df', out_post)"
    and o2: "o2 = bloque @ out_post"
    by (rule cat_loop_Cons)
  from cat_loop_other[OF l1 assms(2)] assms(3) have g1: "get_col df1 col = Some c" by simp
  from cat_col_Inr[OF s g1] obtain c' resto where
    f: "fillna c (relleno p ?n c) = Inr c'" and d2: "df2 = set_col df1 col c'"
    and b: "bloque = AnalizandoColumna col # Nulos (isnull_sum c) ?n (porcentaje_nulos ?n c) # resto"
    and hi: "umbral_nulos_alto p < porcentaje_nulos ?n c
               \<longrightarrow> resto = [NulosSobreUmbral (umbral_nulos_alto p) (etiqueta_unknown p)]"
    and lo: "\<not> umbral_nulos_alto p < porcentaje_nulos ?n c
               \<longrightarrow> resto = [SinValoresNoNulos (etiqueta_unknown p)] \<or>
                   (\<exists>v r w s t. resto = [Moda v r, SegundaCategoria w s, VentajaModa t])"
    by blast
  from d2 have "get_col df2 col = Some c'" by (simp add: get_col_set_col)
  from cat_loop_complete_kept[OF l3 this fillna_Inr_complete[OF f]]
  have g': "get_col df' col = Some c'" .
  have fb: "umbral_nulos_alto p < porcentaje_nulos ?n c
              \<longrightarrow> objects c' = map (fill_cell (S (etiqueta_unknown p))) (objects c)"
  proof
    assume "umbral_nulos_alto p < porcentaje_nulos ?n c"
    then have "relleno p ?n c = S (etiqueta_unknown p)" by (simp add: relleno_def)
    with fillna_Inr_objects[OF f] show "objects c' = map (fill_cell (S (etiqueta_unknown p))) (objects c)"
      by simp
  qed
  have iff: "resto = [NulosSobreUmbral (umbral_nulos_alto p) (etiqueta_unknown p)]
              \<longleftrightarrow> umbral_nulos_alto p < porcentaje_nulos ?n c"
    using hi lo by auto
  have pn: "porcentaje_nulos ?n c = (if 0 < ?n then fl (real (isnull_sum c) / real ?n) else 0)"
    by (simp add: porcentaje_nulos_def)
  have w: "imputar_categoricas p df (pre @ col # post) =
      Inr (df', out_pre @ AnalizandoColumna col #
                Nulos (isnull_sum c) ?n (porcentaje_nulos ?n c) # resto @ out_post)"
    using r o o2 b by (simp add: imputar_categoricas_def)
  from s b have s': "imputar_categorica_col p ?n col df1 =
      Inr (df2, AnalizandoColumna col # Nulos (isnull_sum c) ?n (porcentaje_nulos ?n c) # resto)"
    by simp
  from l1 s' l3 w pn iff lo g' fb show ?thesis by blast
qed

theorem imputar_categoricas_auto_fallback_boundary_witness:
  "get_col ej_df ''zz'' = None \<and> get_col ej_df ''dept'' = Some ej_dept \<and>
   get_col ej_df ''ciudad'' = Some ej_ciudad \<and> admite_etiqueta ej_dept \<and> admite_etiqueta ej_ciudad \<and>
   ''dept'' \<notin> set [''zz''] \<and> ''ciudad'' \<notin> set [''zz'', ''dept''] \<and>
   porcentaje_nulos (index_len ej_df) ej_dept = umbral_nulos_alto cat_defaults \<and>
   umbral_nulos_alto cat_defaults < porcentaje_nulos (index_len ej_df) ej_ciudad \<and>
   (\<exists>df'. imputar_categoricas cat_defaults ej_df [''zz'', ''dept'', ''ciudad''] =
      Inr (df',
           [AnalizandoColumna ''zz'', ColumnaNoExiste ''zz'',
            AnalizandoColumna ''dept'', Nulos 1 5 (fl (1 / 5)), Moda (S ''A'') (fl (3 / 5)),
            SegundaCategoria (Some (S ''B'')) (fl (1 / 5)),
            VentajaModa (fl (fl (3 / 5) - fl (1 / 5))),
            AnalizandoColumna ''ciudad'', Nulos 2 5 (fl (2 / 5)),
            NulosSobreUmbral (fl (1 / 5)) ''Unknown'']) \<and>
      get_col df' ''dept'' =
        Some (ObjectCol [Some (S ''A''), Some (S ''A''), Some (S ''A''), Some (S ''B''),
                         Some (S ''A'')]) \<and>
      get_col df' ''ciudad'' =
        Some (ObjectCol [Some (S ''X''), Some (S ''Unknown''), Some (S ''Unknown''), Some (S ''Y''),
                         Some (S ''X'')]))"
proof -
  have g: "get_col ej_df ''zz'' = None" "get_col ej_df ''dept'' = Some ej_dept"
    "get_col ej_df ''ciudad'' = Some ej_ciudad"
    and a: "admite_etiqueta ej_dept" "admite_etiqueta ej_ciudad"
    and n: "''dept'' \<notin> set [''zz'']" "''ciudad'' \<notin> set [''zz'', ''dept'']"
    and r1: "porcentaje_nulos (index_len ej_df) ej_dept = umbral_nulos_alto cat_defaults"
    and r2: "umbral_nulos_alto cat_defaults < porcentaje_nulos (index_len ej_df) ej_ciudad"
    by (simp_all add: ej_cat_defs)
  from g a
  have t1: "\<forall>k \<in> set ([''zz''] @ ''dept'' # [''ciudad'']). \<forall>x. get_col ej_df k = Some x \<longrightarrow> admite_etiqueta x"
    and t2: "\<forall>k \<in> set ([''zz'', ''dept''] @ ''ciudad'' # []). \<forall>x. get_col ej_df k = Some x \<longrightarrow> admite_etiqueta x"
    by simp_all
  have e: "imputar_categoricas cat_defaults ej_df [''zz'', ''dept'', ''ciudad''] =
     Inr (\<lparr>index_len = 5, data =
            [(''dept'', ObjectCol [Some (S ''A''), Some (S ''A''), Some (S ''A''), Some (S ''B''),
                                   Some (S ''A'')]),
             (''ciudad'', ObjectCol [Some (S ''X''), Some (S ''Unknown''), Some (S ''Unknown''),
                                     Some (S ''Y''), Some (S ''X'')]),
             (''age'', ej_age)]\<rparr>,
          [AnalizandoColumna ''zz'', ColumnaNoExiste ''zz'',
           AnalizandoColumna ''dept'', Nulos 1 5 (fl (1 / 5)), Moda (S ''A'') (fl (3 / 5)),
           SegundaCategoria (Some (S ''B'')) (fl (1 / 5)),
           VentajaModa (fl (fl (3 / 5) - fl (1 / 5))),
           AnalizandoColumna ''ciudad'', Nulos 2 5 (fl (2 / 5)),
           NulosSobreUmbral (fl (1 / 5)) ''Unknown''])"
    by (simp add: ej_cat_defs)
  from imputar_categoricas_auto_fallback_boundary[OF t1 n(1) g(2), of cat_defaults] r1
  obtain df' out_pre resto out_post where
    w1: "imputar_categoricas cat_defaults ej_df ([''zz''] @ ''dept'' # [''ciudad'']) =
           Inr (df', out_pre @ AnalizandoColumna ''dept'' #
                  Nulos (isnull_sum ej_dept) (index_len ej_df) (porcentaje_nulos (index_len ej_df) ej_dept) #
                  resto @ out_post)"
    and "resto \<noteq> [NulosSobreUmbral (umbral_nulos_alto cat_defaults) (etiqueta_unknown cat_defaults)]"
    by auto
  from imputar_categoricas_auto_fallback_boundary[OF t2 n(2) g(3), of cat_defaults] r2
  obtain df'' c' where
    w2: "imputar_categoricas cat_defaults ej_df ([''zz'', ''dept''] @ ''ciudad'' # []) = Inr (df'', [])
         \<or> get_col df'' ''ciudad'' = Some c'"
    by auto
  have "get_col \<lparr>index_len = 5, data =
            [(''dept'', ObjectCol [Some (S ''A''), Some (S ''A''), Some (S ''A''), Some (S ''B''),
                                   Some (S ''A'')]),
             (''ciudad'', ObjectCol [Some (S ''X''), Some (S ''Unknown''), Some (S ''Unknown''),
                                     Some (S ''Y''), Some (S ''X'')]),
             (''age'', ej_age)]\<rparr> ''dept'' =
        Some (ObjectCol [Some (S ''A''), Some (S ''A''), Some (S ''A''), Some (S ''B''),
                         Some (S ''A'')])"
    and "get_col \<lparr>index_len = 5, data =
            [(''dept'', ObjectCol [Some (S ''A''), Some (S ''A''), Some (S ''A''), Some (S ''B''),
                                   Some (S ''A'')]),
             (''ciudad'', ObjectCol [Some (S ''X''), Some (S ''Unknown''), Some (S ''Unknown''),
                                     Some (S ''Y''), Some (S ''X'')]),
             (''age'', ej_age)]\<rparr> ''ciudad'' =
        Some (ObjectCol [Some (S ''X''), Some (S ''Unknown''), Some (S ''Unknown''), Some (S ''Y''),
                         Some (S ''X'')])"
    by (simp_all add: get_col_def)
  with e g a n r1 r2 w1 w2 show ?thesis by blast
qed

lemma wf_df_col_len: "wf_df df \<Longrightarrow> get_col df col = Some c \<Longrightarrow> col_len c = index_len df"
  by (auto simp: wf_df_def get_col_def list_all_iff dest!: map_of_SomeD)

lemma empty_col: "col_len c = 0 \<Longrightarrow> present c = [] \<and> isnull_sum c = 0"
  by (simp add: col_len_def present_def isnull_sum_def List.map_filter_def)

lemma cat_col_zero_rows:
  assumes "wf_df df" "index_len df = 0"
  shows "\<exists>out. imputar_categorica_col p 0 col df = Inr (df, out)"
proof (cases "get_col df col")
  case None
  then show ?thesis by (simp add: cat_col_absent)
next
  case (Some c)
  with wf_df_col_len[OF assms(1) Some] assms(2) have z: "isnull_sum c = 0" by (simp add: empty_col)
  from cat_col_admite[OF Some complete_admite[OF z], of p 0] obtain df' out where
    s: "imputar_categorica_col p 0 col df = Inr (df', out)" by blast
  from cat_col_Inr[OF s Some] z have "df' = df"
    by (auto simp: fillna_complete set_col_same[OF Some])
  with s show ?thesis by blast
qed

lemma cat_loop_zero_rows:
  assumes "wf_df df" "index_len df = 0"
  shows "\<exists>out. imputar_categoricas_loop p 0 cols df = Inr (df, out)"
proof (induction cols)
  case Nil then show ?case by simp
next
  case (Cons col rest)
  from cat_col_zero_rows[OF assms] obtain o1 where "imputar_categorica_col p 0 col df = Inr (df, o1)"
    by blast
  with Cons show ?case by auto
qed

text \<open>
  C10. On a dataset without rows \<open>imputar_categoricas\<close> returns, and returns the dataset
  as it was; the missing ratio of every column is 0 by the guard on the division, and
  (for a threshold \<open>umbral_nulos_alto\<close> that is not negative) every requested existing
  column takes the branch of line 37, where no present value is found.
\<close>

theorem imputar_categoricas_zero_rows:
  assumes "index_len df = 0" and "wf_df df"
  shows "(\<exists>out. imputar_categoricas p df columnas = Inr (df, out)) \<and>
         (\<forall>col c. get_col df col = Some c \<longrightarrow>
            porcentaje_nulos (index_len df) c = 0 \<and>
            (0 \<le> umbral_nulos_alto p \<longrightarrow>
               imputar_categoricas p df [col] =
                 Inr (df, [AnalizandoColumna col, Nulos 0 0 0, SinValoresNoNulos (etiqueta_unknown p)])))"
proof (intro conjI allI impI)
  show "\<exists>out. imputar_categoricas p df columnas = Inr (df, out)"
    using cat_loop_zero_rows[OF assms(2,1)] by (simp add: imputar_categoricas_def assms(1))
next
  fix col c assume "get_col df col = Some c"
  show "porcentaje_nulos (index_len df) c = 0" by (simp add: porcentaje_nulos_def assms(1))
next
  fix col c assume g: "get_col df col = Some c" and "0 \<le> umbral_nulos_alto p"
  from wf_df_col_len[OF assms(2) g] assms(1) have e: "present c = []" "isnull_sum c = 0"
    by (simp_all add: empty_col)
  then show "imputar_categoricas p df [col] =
      Inr (df, [AnalizandoColumna col, Nulos 0 0 0, SinValoresNoNulos (etiqueta_unknown p)])"
    using g \<open>0 \<le> umbral_nulos_alto p\<close> assms(1)
    by (simp add: imputar_categoricas_def imputar_categorica_col_def porcentaje_nulos_def
        value_counts_empty_iff asignar_fillna_def fillna_complete set_col_same)
qed

theorem imputar_categoricas_zero_rows_witness:
  "index_len ej_vacio = 0 \<and> wf_df ej_vacio \<and> get_col ej_vacio ''age'' = Some (Float64Col []) \<and>
   0 \<le> umbral_nulos_alto cat_defaults \<and>
   (\<exists>out. imputar_categoricas cat_defaults ej_vacio [''dept'', ''zz'', ''age''] = Inr (ej_vacio, out)) \<and>
   porcentaje_nulos (index_len ej_vacio) (Float64Col []) = 0 \<and>
   imputar_categoricas cat_defaults ej_vacio [''age''] =
     Inr (ej_vacio, [AnalizandoColumna ''age'', Nulos 0 0 0,
                     SinValoresNoNulos (etiqueta_unknown cat_defaults)])"
proof -
  have h: "index_len ej_vacio = 0" "wf_df ej_vacio"
    and g: "get_col ej_vacio ''age'' = Some (Float64Col [])"
    and t: "0 \<le> umbral_nulos_alto cat_defaults"
    by (simp_all add: ej_cat_defs)
  from imputar_categoricas_zero_rows[OF h, of cat_defaults "[''dept'', ''zz'', ''age'']"] g t h
  show ?thesis by blast
qed

section \<open>Column selection and the float view\<close>

lemma select_columns_Inl: "c \<in> set cs \<Longrightarrow> get_col df c = None \<Longrightarrow> select_columns df cs = Inl KeyError"
  by (induction cs) (auto split: option.splits sum.splits)

lemma select_columns_Inl_only: "select_columns df cs = Inl e \<Longrightarrow> e = KeyError \<and> (\<exists>c \<in> set cs. get_col df c = None)"
  by (induction cs) (auto split: option.splits sum.splits)

lemma select_columns_Inr:
  "select_columns df cs = Inr sub \<Longrightarrow>
     map fst sub = cs \<and> (\<forall>(k, c) \<in> set sub. get_col df k = Some c)"
  by (induction cs arbitrary: sub) (auto split: option.splits sum.splits)

lemma select_columns_Inr_nth:
  assumes "select_columns df cs = Inr sub" "j < length cs"
  shows "\<exists>c. sub ! j = (cs ! j, c) \<and> get_col df (cs ! j) = Some c"
proof -
  from select_columns_Inr[OF assms(1)] have m: "map fst sub = cs" and g: "\<forall>(k, c) \<in> set sub. get_col df k = Some c" by auto
  from m assms(2) have l: "j < length sub" using length_map[of fst sub] by simp
  obtain k c where kc: "sub ! j = (k, c)" by (cases "sub ! j")
  from l have "map fst sub ! j = fst (sub ! j)" by (rule nth_map)
  with m kc have k: "k = cs ! j" by simp
  from l have "sub ! j \<in> set sub" by (rule nth_mem)
  with kc g have "get_col df k = Some c" by auto
  with k kc show ?thesis by simp
qed

lemma collect_Inr:
  "collect xs = Inr vs \<Longrightarrow> length vs = length xs \<and> (\<forall>j < length xs. xs ! j = Inr (vs ! j))"
proof (induction xs arbitrary: vs)
  case Nil then show ?case by simp
next
  case (Cons x xs)
  then show ?case by (auto split: sum.splits simp: nth_Cons') 
qed

text \<open>The failure on an absent name, and the early return.\<close>

lemma imputar_numericas_absent:
  assumes "c \<in> set columnas" "c \<notin> set (columns df)"
  shows "imputar_numericas p df columnas = Inl KeyError"
proof -
  from assms(2) have "get_col df c = None" using get_col_Some_iff[of df c] by (cases "get_col df c") auto
  with assms(1) show ?thesis by (simp add: imputar_numericas_def select_columns_Inl)
qed

lemma select_dtypes_number_iff:
  "k \<in> set (select_dtypes_number xs) \<longleftrightarrow> (\<exists>c. (k, c) \<in> set xs \<and> is_number c)"
  by (auto simp: select_dtypes_number_def image_iff)

lemma imputar_numericas_no_eligible:
  assumes "\<forall>c \<in> set columnas. \<exists>x. get_col df c = Some x \<and> \<not> is_number x"
  shows "imputar_numericas p df columnas = Inr (df, [NoHayColumnasValidas])"
proof -
  from assms have "\<forall>c \<in> set columnas. get_col df c \<noteq> None" by auto
  then obtain sub where sub: "select_columns df columnas = Inr sub"
    using select_columns_Inl_only[of df columnas] by (cases "select_columns df columnas") auto
  from select_columns_Inr[OF sub] have m: "map fst sub = columnas"
    and g: "\<forall>(k, c) \<in> set sub. get_col df k = Some c" by auto
  have "select_dtypes_number sub = []"
  proof -
    have "\<not> is_number c" if "(k, c) \<in> set sub" for k c
    proof -
      from that m have "k \<in> set columnas" by force
      with assms obtain x where "get_col df k = Some x" "\<not> is_number x" by auto
      moreover from g that have "get_col df k = Some c" by auto
      ultimately show ?thesis by simp
    qed
    then show ?thesis by (auto simp: select_dtypes_number_def filter_empty_conv)
  qed
  moreover have "filter (\<lambda>c. c \<notin> set (columns df)) columnas = []"
    using assms get_col_Some_iff[of df] by (auto simp: filter_empty_conv)
  ultimately show ?thesis using sub by (simp add: imputar_numericas_def columnas_validas_def)
qed

section \<open>Median and nearest-neighbour steps\<close>

lemma to_float_objects: "to_float c = Inr xs \<Longrightarrow> objects c = map (map_option N) xs"
proof (cases c)
  case (ObjectCol ys)
  assume a: "to_float c = Inr xs"
  with ObjectCol have all: "list_all (\<lambda>x. case x of Some (S _) \<Rightarrow> False | _ \<Rightarrow> True) ys"
    and xs: "xs = map (map_option num_of) ys"
    by (auto simp: to_float_def split: if_splits)
  have "map_option N (map_option num_of y) = y" if "y \<in> set ys" for y
  proof -
    from all that have "case y of Some (S _) \<Rightarrow> False | _ \<Rightarrow> True" by (simp add: list_all_iff)
    then show ?thesis by (cases y) (auto simp: num_of_def split: pval.splits)
  qed
  then have "map (map_option N) (map (map_option num_of) ys) = ys"
    by (simp add: map_idI)
  with ObjectCol xs show ?thesis by simp
next
  case (Float64Col ys)
  assume "to_float c = Inr xs"
  with Float64Col show ?thesis by (simp add: to_float_def)
next
  case (Int64Col ys)
  assume "to_float c = Inr xs"
  with Int64Col show ?thesis by (auto simp: to_float_def option.map_comp comp_def)
qed

lemma objects_Float64Col_complete: "isnull_sum (Float64Col (map Some ys)) = 0"
  by (simp add: isnull_sum_def)

lemma to_float_len: "to_float c = Inr xs \<Longrightarrow> length xs = col_len c"
  by (drule to_float_objects) (simp add: col_len_def)

lemma imputer_mediana_Inr:
  assumes "imputer_mediana c = Inr c'"
  shows "\<exists>ys. c' = Float64Col (map Some ys) \<and> length ys = col_len c"
proof -
  from assms obtain xs where xs: "to_float c = Inr xs"
    and c': "c' = Float64Col (map (fill_cell (median (present_reals xs))) xs)"
    by (auto simp: imputer_mediana_def split: sum.splits if_splits)
  let ?m = "median (present_reals xs)"
  have e: "map (fill_cell ?m) xs = map Some (map (\<lambda>x. case x of None \<Rightarrow> ?m | Some y \<Rightarrow> y) xs)"
    by (auto simp: fill_cell_def split: option.splits)
  have "length (map (\<lambda>x. case x of None \<Rightarrow> ?m | Some y \<Rightarrow> y) xs) = col_len c"
    using to_float_len[OF xs] by simp
  with c' e show ?thesis by metis
qed

lemma imputar_mediana_Inr:
  assumes "imputar_mediana col df = Inr df'"
  shows "\<exists>c ys. get_col df col = Some c \<and> df' = set_col df col (Float64Col (map Some ys)) \<and>
           length ys = col_len c"
proof -
  from assms obtain c c' where c: "get_col df col = Some c" "imputer_mediana c = Inr c'"
    and df': "df' = set_col df col c'"
    by (auto simp: imputar_mediana_def split: option.splits sum.splits)
  from imputer_mediana_Inr[OF c(2)] c(1) df' show ?thesis by auto
qed

subsection \<open>the nearest-neighbour step\<close>

lemma nanvar_nonneg: "0 \<le> nanvar xs"
  by (auto simp: nanvar_def intro!: divide_nonneg_nonneg sum_list_nonneg)

lemma scale_of_pos: "0 < scale_of xs"
  using nanvar_nonneg[of xs] by (auto simp: scale_of_def)

lemma length_knn_transform_col: "length (knn_transform_col n M j) = length (M ! j)"
  by (simp add: knn_transform_col_def)

lemma map_of_zip_SomeD:
  "map_of (zip ks vs) k = Some v \<Longrightarrow> \<exists>j. j < length ks \<and> j < length vs \<and> ks ! j = k \<and> vs ! j = v"
  by (drule map_of_SomeD) (auto simp: in_set_zip)

lemma knn_impute_context_detail:
  assumes "knn_impute_context n ctx df = Inr XI" "map_of XI col = Some ys"
  shows "\<exists>sub X j c. select_columns df ctx = Inr sub \<and>
           collect (map (\<lambda>(k, c). to_float c) sub) = Inr X \<and>
           j < length X \<and> ctx ! j = col \<and> (\<forall>xs \<in> set X. present_reals xs \<noteq> []) \<and>
           get_col df col = Some c \<and> to_float c = Inr (X ! j) \<and>
           ys = scaler_inverse_transform (X ! j) (knn_transform_col n (map scaler_transform X) j)"
proof -
  from assms(1) obtain sub X where sub: "select_columns df ctx = Inr sub"
    and X: "collect (map (\<lambda>(k, c). to_float c) sub) = Inr X"
    and ne: "\<not> list_ex (\<lambda>xs. present_reals xs = []) X"
    and XI: "XI = zip ctx (map (\<lambda>(xs, ys). scaler_inverse_transform xs ys)
                 (zip X (map (knn_transform_col n (map scaler_transform X)) [0..<length X])))"
    by (auto simp: knn_impute_context_def Let_def split: sum.splits if_splits)
  from select_columns_Inr[OF sub] have lsub: "length sub = length ctx" by (metis length_map)
  from collect_Inr[OF X] have lX: "length X = length sub"
    and Xj: "\<forall>j < length sub. (\<lambda>(k, c). to_float c) (sub ! j) = Inr (X ! j)" by auto
  from assms(2) XI obtain j where j: "j < length ctx" "j < length X" "ctx ! j = col"
    and ys: "ys = scaler_inverse_transform (X ! j) (knn_transform_col n (map scaler_transform X) j)"
    by (auto dest!: map_of_zip_SomeD)
  from select_columns_Inr_nth[OF sub j(1)] j(3) obtain c where
    c: "sub ! j = (col, c)" "get_col df col = Some c" by auto
  from Xj j(1) lsub c(1) have tf: "to_float c = Inr (X ! j)" by auto
  from ne have "\<forall>xs \<in> set X. present_reals xs \<noteq> []" by (simp add: list_ex_iff)
  with sub X j ys c(2) tf show ?thesis by blast
qed

lemma imputar_knn_Inr:
  assumes "imputar_knn n ctx col df = Inr df'"
  shows "\<exists>c ys. get_col df col = Some c \<and> df' = set_col df col (Float64Col (map Some ys)) \<and>
           length ys = col_len c"
proof -
  from assms obtain XI ys where XI: "knn_impute_context n ctx df = Inr XI"
    and m: "map_of XI col = Some ys" and df': "df' = set_col df col (Float64Col (map Some ys))"
    by (auto simp: imputar_knn_def split: sum.splits option.splits)
  from knn_impute_context_detail[OF XI m] obtain X j c where
    j: "j < length X" and c: "get_col df col = Some c" "to_float c = Inr (X ! j)"
    and ys: "ys = scaler_inverse_transform (X ! j) (knn_transform_col n (map scaler_transform X) j)"
    by blast
  from j have "length ys = length (X ! j)"
    by (simp add: ys scaler_inverse_transform_def length_knn_transform_col scaler_transform_def)
  with to_float_len[OF c(2)] c(1) df' show ?thesis by auto
qed

section \<open>One iteration and the loop of the numeric imputer\<close>

lemma indicador_neq: "indicador col \<noteq> col"
  by (simp add: indicador_def)

lemma indicador_inj: "indicador a = indicador b \<longleftrightarrow> a = b"
  by (simp add: indicador_def)

lemma num_col_Inr:
  assumes "imputar_numerica_col p ntotal ctx col df = Inr df'"
  shows "\<exists>c ys. get_col df col = Some c \<and> length ys = col_len c \<and>
           df' = set_col (if escribe_indicador p ntotal c
                          then set_col df (indicador col) (isnull_astype_int c) else df)
                   col (Float64Col (map Some ys))"
proof -
  from assms obtain c where c: "get_col df col = Some c"
    by (auto simp: imputar_numerica_col_def split: option.splits)
  let ?df1 = "if escribe_indicador p ntotal c
              then set_col df (indicador col) (isnull_astype_int c) else df"
  have g1: "get_col ?df1 col = Some c"
    using c indicador_neq[of col] by (auto simp: get_col_set_col)
  from assms c have "imputar_mediana col ?df1 = Inr df' \<or> imputar_knn (n_neighbors p) ctx col ?df1 = Inr df'"
    by (auto simp: imputar_numerica_col_def escribe_indicador_def Let_def split: if_splits)
  then obtain c1 ys where "get_col ?df1 col = Some c1"
    "df' = set_col ?df1 col (Float64Col (map Some ys))" "length ys = col_len c1"
    using imputar_mediana_Inr[of col ?df1 df'] imputar_knn_Inr[of "n_neighbors p" ctx col ?df1 df']
    by blast
  with g1 c show ?thesis by auto
qed

lemma num_col_get:
  assumes "imputar_numerica_col p ntotal ctx col df = Inr df'"
  shows "index_len df' = index_len df"
    and "k \<noteq> col \<Longrightarrow> k \<noteq> indicador col \<Longrightarrow> get_col df' k = get_col df k"
    and "\<exists>c ys. get_col df col = Some c \<and> get_col df' col = Some (Float64Col (map Some ys)) \<and>
           length ys = col_len c \<and>
           get_col df' (indicador col) =
             (if escribe_indicador p ntotal c then Some (isnull_astype_int c)
              else get_col df (indicador col)) \<and>
           columns df' =
             (if escribe_indicador p ntotal c \<and> indicador col \<notin> set (columns df)
              then columns df @ [indicador col] else columns df)"
proof -
  from num_col_Inr[OF assms] obtain c ys where
    c: "get_col df col = Some c" and f: "length ys = col_len c"
    and df': "df' = set_col (if escribe_indicador p ntotal c
                          then set_col df (indicador col) (isnull_astype_int c) else df)
                   col (Float64Col (map Some ys))" by blast
  from c have in_cols: "col \<in> set (columns df)" using get_col_Some_iff by blast
  show "index_len df' = index_len df" by (simp add: df' index_len_set_col)
  show "k \<noteq> col \<Longrightarrow> k \<noteq> indicador col \<Longrightarrow> get_col df' k = get_col df k"
    by (simp add: df' get_col_set_col)
  have "get_col df' col = Some (Float64Col (map Some ys))" by (simp add: df' get_col_set_col)
  moreover have "get_col df' (indicador col) =
             (if escribe_indicador p ntotal c then Some (isnull_astype_int c)
              else get_col df (indicador col))"
    using indicador_neq[of col] by (simp add: df' get_col_set_col)
  moreover have "columns df' =
             (if escribe_indicador p ntotal c \<and> indicador col \<notin> set (columns df)
              then columns df @ [indicador col] else columns df)"
    using in_cols by (simp add: df' columns_set_col)
  ultimately show "\<exists>c ys. get_col df col = Some c \<and> get_col df' col = Some (Float64Col (map Some ys)) \<and>
           length ys = col_len c \<and>
           get_col df' (indicador col) =
             (if escribe_indicador p ntotal c then Some (isnull_astype_int c)
              else get_col df (indicador col)) \<and>
           columns df' =
             (if escribe_indicador p ntotal c \<and> indicador col \<notin> set (columns df)
              then columns df @ [indicador col] else columns df)"
    using c f by blast
qed

lemma num_loop_Cons:
  assumes "imputar_numericas_loop p ntotal ctx (col # rest) df = Inr (df', out)"
  obtains df1 out2 where "imputar_numerica_col p ntotal ctx col df = Inr df1"
    and "imputar_numericas_loop p ntotal ctx rest df1 = Inr (df', out2)"
  using assms by (auto split: sum.splits)



subsection \<open>restoring the integer columns\<close>


lemma restaurar_enteros_frame:
  assumes "restaurar_enteros d0 cols df = Inr df'"
  shows "index_len df' = index_len df \<and> columns df' = columns df \<and>
         (\<forall>k. k \<notin> set cols \<longrightarrow> get_col df' k = get_col df k)"
  using assms
proof (induction cols arbitrary: df)
  case Nil
  then show ?case by simp
next
  case (Cons col rest)
  show ?case
  proof (cases "\<exists>c0. get_col d0 col = Some c0 \<and> is_integer_dtype c0")
    case False
    with Cons.prems have "restaurar_enteros d0 rest df = Inr df'"
      by (auto split: option.splits)
    from Cons.IH[OF this] show ?thesis by simp
  next
    case True
    with Cons.prems obtain c c' where c: "get_col df col = Some c" 
      and r: "restaurar_enteros d0 rest (set_col df col c') = Inr df'"
      by (auto split: option.splits sum.splits)
    from c have "col \<in> set (columns df)" using get_col_Some_iff by blast
    with Cons.IH[OF r] show ?thesis
      by (simp add: index_len_set_col columns_set_col get_col_set_col)
  qed
qed





lemma select_dtypes_number_sub:
  assumes "select_columns df cs = Inr sub"
  shows "select_dtypes_number sub = filter (elegible df) cs"
  using assms
proof (induction cs arbitrary: sub)
  case Nil
  then show ?case by (simp add: select_dtypes_number_def)
next
  case (Cons k ks)
  from Cons.prems obtain c r where c: "get_col df k = Some c" and r: "select_columns df ks = Inr r"
    and sub: "sub = (k, c) # r"
    by (auto split: option.splits sum.splits)
  from Cons.IH[OF r] c sub show ?case
    by (simp add: select_dtypes_number_def elegible_def)
qed

lemma elegible_in_number: "elegible df k \<Longrightarrow> k \<in> set (select_dtypes_number (data df))"
  by (auto simp: elegible_def select_dtypes_number_iff get_col_def split: option.splits
      dest: map_of_SomeD)

lemma columnas_validas_eq:
  assumes "select_columns df cs = Inr sub"
  shows "columnas_validas df sub = filter (elegible df) cs"
proof -
  have "filter (\<lambda>c. c \<in> set (select_dtypes_number (data df))) (filter (elegible df) cs)
        = filter (elegible df) cs"
    by (rule filter_True) (auto intro: elegible_in_number)
  then show ?thesis by (simp add: columnas_validas_def select_dtypes_number_sub[OF assms])
qed

lemma num_decompose:
  assumes "imputar_numericas p df columnas = Inr (df', out)"
  shows "set columnas \<subseteq> set (columns df) \<and>
     ((filter (elegible df) columnas = [] \<and> df' = df) \<or>
      (\<exists>df1 out1.
         imputar_numericas_loop p (index_len df) (select_dtypes_number (data df))
            (filter (elegible df) columnas) df = Inr (df1, out1) \<and>
         restaurar_enteros df (filter (elegible df) columnas) df1 = Inr df'))"
proof -
  from assms obtain sub where sub: "select_columns df columnas = Inr sub"
    by (auto simp: imputar_numericas_def split: sum.splits)
  have "set columnas \<subseteq> set (columns df)"
  proof
    fix k assume "k \<in> set columnas"
    then have "get_col df k \<noteq> None"
      using select_columns_Inl[of k columnas df] sub by (cases "get_col df k") auto
    then show "k \<in> set (columns df)" using get_col_Some_iff[of df k] by auto
  qed
  moreover have "(filter (elegible df) columnas = [] \<and> df' = df) \<or>
      (\<exists>df1 out1.
         imputar_numericas_loop p (index_len df) (select_dtypes_number (data df))
            (filter (elegible df) columnas) df = Inr (df1, out1) \<and>
         restaurar_enteros df (filter (elegible df) columnas) df1 = Inr df')"
    using assms sub
    by (auto simp: imputar_numericas_def columnas_validas_eq[OF sub] Let_def
        split: sum.splits if_splits)
  ultimately show ?thesis by blast
qed

lemma porcentaje_nulos_complete: "isnull_sum c = 0 \<Longrightarrow> porcentaje_nulos n c = 0"
  by (simp add: porcentaje_nulos_def)



text \<open>an indicator, once written, is kept\<close>

lemma num_loop_keeps_indicator:
  assumes "imputar_numericas_loop p ntotal ctx cols df = Inr (df', out)"
    and "\<forall>k \<in> set cols. k \<in> K \<and> indicador k \<notin> K"
    and "col \<in> K" "indicador col \<notin> K" "0 \<le> umbral_nulos_alto p"
    and "get_col df col = Some c1" "isnull_sum c1 = 0"
  shows "get_col df' (indicador col) = get_col df (indicador col)"
  using assms(1,2,6,7)
proof (induction cols arbitrary: df out c1)
  case Nil
  then show ?case by simp
next
  case (Cons k rest)
  from Cons.prems(1) obtain df1 out2 where
    s: "imputar_numerica_col p ntotal ctx k df = Inr df1"
    and l: "imputar_numericas_loop p ntotal ctx rest df1 = Inr (df', out2)"
    by (rule num_loop_Cons)
  note st = num_col_get[OF s]
  from Cons.prems(2) have k: "k \<in> K" "indicador k \<notin> K" and rest: "\<forall>k \<in> set rest. k \<in> K \<and> indicador k \<notin> K"
    by auto
  have "get_col df1 (indicador col) = get_col df (indicador col) \<and>
        (\<exists>c2. get_col df1 col = Some c2 \<and> isnull_sum c2 = 0)"
  proof (cases "k = col")
    case True
    from Cons.prems(3,4) assms(5) have "\<not> escribe_indicador p ntotal c1"
      by (simp add: escribe_indicador_def porcentaje_nulos_complete)
    with st(3) True Cons.prems(3) show ?thesis by (auto simp: objects_Float64Col_complete)
  next
    case False
    from k assms(3,4) have "indicador col \<noteq> k" "col \<noteq> indicador k" by auto
    moreover from False have "indicador col \<noteq> indicador k" by (simp add: indicador_inj)
    ultimately show ?thesis using st(2)[of "indicador col"] st(2)[of col] False Cons.prems(3,4)
      by auto
  qed
  then obtain c2 where e: "get_col df1 (indicador col) = get_col df (indicador col)"
    and c2: "get_col df1 col = Some c2" "isnull_sum c2 = 0" by blast
  from Cons.IH[OF l rest c2] e show ?case by simp
qed

lemma num_loop_indicator:
  assumes "imputar_numericas_loop p ntotal ctx cols df = Inr (df', out)"
    and "\<forall>k \<in> set cols. k \<in> K \<and> indicador k \<notin> K"
    and "0 \<le> umbral_nulos_alto p"
    and "col \<in> set cols" "get_col df col = Some c" "escribe_indicador p ntotal c"
  shows "get_col df' (indicador col) = Some (isnull_astype_int c)"
  using assms(1,2,4,5)
proof (induction cols arbitrary: df out)
  case Nil
  then show ?case by simp
next
  case (Cons k rest)
  from Cons.prems(1) obtain df1 out2 where
    s: "imputar_numerica_col p ntotal ctx k df = Inr df1"
    and l: "imputar_numericas_loop p ntotal ctx rest df1 = Inr (df', out2)"
    by (rule num_loop_Cons)
  note st = num_col_get[OF s]
  from Cons.prems(2) have k: "k \<in> K" "indicador k \<notin> K" and rest: "\<forall>k \<in> set rest. k \<in> K \<and> indicador k \<notin> K"
    by auto
  from Cons.prems(2,3) have col: "col \<in> K" "indicador col \<notin> K" by auto
  show ?case
  proof (cases "k = col")
    case True
    with st(3) Cons.prems(4) assms(6) obtain ys where
      "get_col df1 col = Some (Float64Col (map Some ys))"
      "get_col df1 (indicador col) = Some (isnull_astype_int c)" by auto
    with num_loop_keeps_indicator[OF l rest col assms(3), of "Float64Col (map Some ys)"]
    show ?thesis by (simp add: objects_Float64Col_complete)
  next
    case False
    with Cons.prems(3) have "col \<in> set rest" by simp
    moreover from k col have "col \<noteq> indicador k" by auto
    with False st(2)[of col] Cons.prems(4) have "get_col df1 col = Some c" by simp
    ultimately show ?thesis using Cons.IH[OF l rest] by simp
  qed
qed



section \<open>Properties of the numeric imputer\<close>

lemmas ej_num_defs = ej_num_def ej_int_def ej_ind_def ej_choque_def num_defaults_def
  imputar_numericas_def columnas_validas_def select_dtypes_number_def is_number_def get_col_def
  columns_def imputar_numerica_col_def porcentaje_nulos_def isnull_sum_def imputar_mediana_def
  imputer_mediana_def to_float_def present_reals_def median_def fill_cell_def set_col_def
  is_integer_dtype_def round_astype_Int64_def rint_def indicador_def isnull_astype_int_def
  elegible_def fl_vals

text \<open>
  C1. The claim is that a requested name absent from the dataset does not make
  \<open>imputar_numericas\<close> fail: it is reported and skipped. The code selects
  \<open>df[columnas]\<close> on line 80, before the absent names are collected and reported on lines
  81 to 84, and that selection raises \<open>KeyError\<close>: with the requested list
  \<open>["a", "zz"]\<close> on a dataset that has a numeric column \<open>a\<close> and no column \<open>zz\<close>, the
  call fails and \<open>a\<close> is not imputed.
\<close>

theorem imputar_numericas_absent_name_fails:
  "imputar_numericas num_defaults ej_num [''a'', ''zz''] = Inl KeyError"
  by (simp add: ej_num_defs)

text \<open>
  C9. The claim is that \<open>imputar_numericas\<close> returns the dataset unchanged whenever no
  requested name is both present and numeric. With every requested name present this is
  what the code does (lemma \<open>imputar_numericas_no_eligible\<close>); with an absent name in the
  list the selection of line 80 raises \<open>KeyError\<close> before the early return of lines 89
  to 91: the list \<open>["t", "zz"]\<close>, a text column and an absent name, has no eligible name
  and the call fails.
\<close>

theorem imputar_numericas_no_eligible_absent_fails:
  "filter (elegible ej_num) [''t'', ''zz''] = [] \<and>
   imputar_numericas num_defaults ej_num [''t'', ''zz''] = Inl KeyError"
  by (simp add: ej_num_defs)



text \<open>
  C6, as stated, fails when the indicator name of one requested column is the name of
  another: in \<open>ej_ind\<close> the columns \<open>a\<close> and \<open>a_missing\<close> are both numeric with half of
  their cells missing. Processing \<open>a\<close> overwrites \<open>a_missing\<close> with the indicator of \<open>a\<close>,
  so that \<open>a_missing\<close> has no missing cell left when its turn comes, and no indicator
  \<open>a_missing_missing\<close> is ever created for it.
\<close>

theorem imputar_numericas_indicator_counterexample:
  "elegible ej_ind ''a_missing'' \<and>
   get_col ej_ind ''a_missing'' = Some (Float64Col [None, Some 3]) \<and>
   umbral_nulos_alto num_defaults < porcentaje_nulos (index_len ej_ind) (Float64Col [None, Some 3]) \<and>
   crear_indicador_missing num_defaults \<and>
   imputar_numericas num_defaults ej_ind [''a'', ''a_missing''] =
     Inr (\<lparr>index_len = 2, data = [(''a'', Float64Col [Some 1, Some 1]),
                                   (''a_missing'', Float64Col [Some 1, Some 0])]\<rparr>,
          [AnalizandoNumerica ''a'', AnalizandoNumerica ''a_missing'']) \<and>
   get_col \<lparr>index_len = 2, data = [(''a'', Float64Col [Some 1, Some 1]),
                                   (''a_missing'', Float64Col [Some 1, Some 0])]\<rparr>
      (indicador ''a_missing'') = None"
  by (simp add: ej_num_defs)

text \<open>
  C6, amended. Let the thresholds be ordered, \<open>0 \<le> umbral_nulos_alto\<close> and
  \<open>umbral_nulos_bajo \<le> umbral_nulos_alto\<close>, and let no requested column have an indicator
  name that is already a column of the dataset. Then for every requested numeric column
  whose missing ratio is strictly greater than \<open>umbral_nulos_alto\<close>, with
  \<open>crear_indicador_missing\<close> true, the dataset returned by \<open>imputar_numericas\<close> has the
  column \<open>col_missing\<close>, an integer column that is 1 at exactly the rows where the source
  column was missing in the input and 0 at the other rows.
\<close>

theorem imputar_numericas_indicator:
  assumes "imputar_numericas p df columnas = Inr (df', out)"
    and "col \<in> set columnas" and "get_col df col = Some c" and "is_number c"
    and "umbral_nulos_alto p < porcentaje_nulos (index_len df) c"
    and "crear_indicador_missing p"
    and "0 \<le> umbral_nulos_alto p" and "umbral_nulos_bajo p \<le> umbral_nulos_alto p"
    and "\<forall>k \<in> set columnas. indicador k \<notin> set (columns df)"
  shows "indicador col \<notin> set (columns df) \<and>
         get_col df' (indicador col) =
           Some (Int64Col (map (\<lambda>x. Some (if x = None then 1 else 0)) (objects c)))"
proof -
  let ?vs = "filter (elegible df) columnas"
  from assms(3,4) have "elegible df col" by (simp add: elegible_def)
  with assms(2) have v: "col \<in> set ?vs" by simp
  then have "?vs \<noteq> []" by (auto simp: filter_empty_conv)
  with num_decompose[OF assms(1)] obtain df1 out1 where
    sub: "set columnas \<subseteq> set (columns df)"
    and l: "imputar_numericas_loop p (index_len df) (select_dtypes_number (data df)) ?vs df
              = Inr (df1, out1)"
    and r: "restaurar_enteros df ?vs df1 = Inr df'" by blast
  from sub assms(9) have K: "\<forall>k \<in> set ?vs. k \<in> set (columns df) \<and> indicador k \<notin> set (columns df)"
    by auto
  from assms(5,6,8) have e: "escribe_indicador p (index_len df) c"
    by (simp add: escribe_indicador_def)
  from num_loop_indicator[OF l K assms(7) v assms(3) e]
  have i: "get_col df1 (indicador col) = Some (isnull_astype_int c)" .
  from K v have "indicador col \<notin> set ?vs" by blast
  with restaurar_enteros_frame[OF r] i have "get_col df' (indicador col) = Some (isnull_astype_int c)"
    by simp
  with assms(2,9) show ?thesis by (simp add: isnull_astype_int_def)
qed

theorem imputar_numericas_indicator_witness:
  "imputar_numericas num_defaults ej_int [''n''] =
     Inr (\<lparr>index_len = 3, data = [(''n'', Int64Col [Some 1, Some 2, Some 2]),
                                   (''n_missing'', Int64Col [Some 0, Some 1, Some 0])]\<rparr>,
          [AnalizandoNumerica ''n'']) \<and>
   ''n'' \<in> set [''n''] \<and> get_col ej_int ''n'' = Some (Int64Col [Some 1, None, Some 2]) \<and>
   is_number (Int64Col [Some 1, None, Some 2]) \<and>
   umbral_nulos_alto num_defaults < porcentaje_nulos (index_len ej_int) (Int64Col [Some 1, None, Some 2]) \<and>
   crear_indicador_missing num_defaults \<and> 0 \<le> umbral_nulos_alto num_defaults \<and>
   umbral_nulos_bajo num_defaults \<le> umbral_nulos_alto num_defaults \<and>
   indicador ''n'' \<notin> set (columns ej_int) \<and>
   get_col \<lparr>index_len = 3, data = [(''n'', Int64Col [Some 1, Some 2, Some 2]),
                                   (''n_missing'', Int64Col [Some 0, Some 1, Some 0])]\<rparr>
      (indicador ''n'') = Some (Int64Col [Some 0, Some 1, Some 0])"
proof -
  have h: "imputar_numericas num_defaults ej_int [''n''] =
     Inr (\<lparr>index_len = 3, data = [(''n'', Int64Col [Some 1, Some 2, Some 2]),
                                   (''n_missing'', Int64Col [Some 0, Some 1, Some 0])]\<rparr>,
          [AnalizandoNumerica ''n''])"
    "''n'' \<in> set [''n'']" "get_col ej_int ''n'' = Some (Int64Col [Some 1, None, Some 2])"
    "is_number (Int64Col [Some 1, None, Some 2])"
    "umbral_nulos_alto num_defaults < porcentaje_nulos (index_len ej_int) (Int64Col [Some 1, None, Some 2])"
    "crear_indicador_missing num_defaults" "0 \<le> umbral_nulos_alto num_defaults"
    "umbral_nulos_bajo num_defaults \<le> umbral_nulos_alto num_defaults"
    "\<forall>k \<in> set [''n'']. indicador k \<notin> set (columns ej_int)"
    by (simp_all add: ej_num_defs)
  from imputar_numericas_indicator[OF h] h show ?thesis by simp
qed

section \<open>The frame of the two imputers\<close>





section \<open>The nearest-neighbour branch\<close>



lemmas knn_defs = imputar_knn_def knn_impute_context_def scaler_transform_def scaler_inverse_transform_def
  scale_of_def nanvar_def nanmean_def knn_transform_col_def knn_value_def nearest_def nearest_among_def
  donors_def nan_euclidean_def row_def

lemma upt5: "[0..<5] = [0, 1, 2, 3, 4]" by (simp add: upt_conv_Cons)
lemma upt2: "[0..<2] = [0, 1]" by (simp add: upt_conv_Cons)


text \<open>
  Over the reals a standardized column has mean 0 and, unless it is constant, variance 1.
\<close>

lemma present_reals_map:
  "present_reals (map (map_option f) xs) = map f (present_reals xs)"
  by (induction xs) (auto simp: present_reals_def split: option.splits)

lemma present_reals_scaler:
  "present_reals (scaler_transform xs)
     = map (\<lambda>x. (x - nanmean xs) / scale_of xs) (present_reals xs)"
  by (simp add: scaler_transform_def present_reals_map)

lemma sum_list_affine:
  fixes f :: "'a \<Rightarrow> real"
  shows "sum_list (map (\<lambda>x. (f x - m) / s) l) = (sum_list (map f l) - real (length l) * m) / s"
  by (induction l) (simp_all add: diff_divide_distrib add_divide_distrib algebra_simps)

lemma sum_list_divide_const:
  fixes g :: "'a \<Rightarrow> real"
  shows "sum_list (map (\<lambda>x. g x / c) l) = sum_list (map g l) / c"
  by (induction l) (simp_all add: add_divide_distrib)

lemma nanmean_scaled:
  assumes "present_reals xs \<noteq> []"
  shows "nanmean (scaler_transform xs) = 0"
proof -
  let ?ps = "present_reals xs"
  from assms have n: "real (length ?ps) \<noteq> 0" by simp
  have "sum_list (map (\<lambda>x. (x - nanmean xs) / scale_of xs) ?ps)
        = (sum_list ?ps - real (length ?ps) * nanmean xs) / scale_of xs"
    using sum_list_affine[of "\<lambda>x. x" "nanmean xs" "scale_of xs" ?ps] by simp
  also have "real (length ?ps) * nanmean xs = sum_list ?ps"
    using n by (simp add: nanmean_def)
  finally show ?thesis by (simp add: nanmean_def[of "scaler_transform xs"] present_reals_scaler)
qed

lemma nanvar_scaled:
  assumes "nanvar xs \<noteq> 0"
  shows "nanvar (scaler_transform xs) = 1"
proof -
  let ?ps = "present_reals xs"
  from assms have ne: "?ps \<noteq> []" by (auto simp: nanvar_def)
  from assms nanvar_nonneg[of xs] have pos: "0 < nanvar xs" by simp
  then have s2: "(scale_of xs)\<^sup>2 = nanvar xs" by (simp add: scale_of_def)
  have "sum_list (map (\<lambda>x. (x - nanmean (scaler_transform xs))\<^sup>2) (present_reals (scaler_transform xs)))
        = sum_list (map (\<lambda>x. (x - nanmean xs)\<^sup>2 / nanvar xs) ?ps)"
    by (simp add: nanmean_scaled[OF ne] present_reals_scaler comp_def power_divide s2)
  also have "\<dots> = sum_list (map (\<lambda>x. (x - nanmean xs)\<^sup>2) ?ps) / nanvar xs"
    by (rule sum_list_divide_const)
  finally have "nanvar (scaler_transform xs)
      = sum_list (map (\<lambda>x. (x - nanmean xs)\<^sup>2) ?ps) / nanvar xs / real (length ?ps)"
    by (simp add: nanvar_def[of "scaler_transform xs"] present_reals_scaler)
  also have "\<dots> = nanvar xs / nanvar xs" by (simp add: nanvar_def[of xs])
  finally show ?thesis using assms by simp
qed

lemma nearest_among_subset: "(d, k) \<in> set (nearest_among ks n M i) \<Longrightarrow> k \<in> set ks"
  by (auto simp: nearest_among_def Let_def dest!: in_set_takeD)

lemma donors_present: "k \<in> set (donors xs) \<Longrightarrow> k < length xs \<and> (\<exists>v. xs ! k = Some v)"
  by (cases "xs ! k") (auto simp: donors_def)









lemma ej_vecinos_run:
  "imputar_numericas knn_params ej_vecinos [''a''] =
     Inr (\<lparr>index_len = 5, data =
            [(''a'', Float64Col [Some 0, Some 0, Some 2, Some 2, Some 2]),
             (''b'', Int64Col [Some 0, Some 2, Some 3, Some 4, Some 6])]\<rparr>,
          [AnalizandoNumerica ''a''])"
  by (simp add: knn_params_def ej_vecinos_def ej_num_defs knn_defs upt5 upt2 power2_eq_square)


end
